theory Spec2Isabelle
  imports Main "HOL-Library.AList"
begin

section \<open>Strings\<close>

text \<open>
  Python's \<open>str\<close> is a sequence of code points. The model uses \<open>string\<close>, whose
  characters are the code points below 256, so it covers the texts of that range. On that
  range \<open>str.isspace\<close> holds for exactly the twelve characters listed here, and
  \<open>str.strip()\<close> removes the longest run of them at each end.
\<close>

definition whitespace :: "char list" where
  "whitespace = [CHR 0x09, CHR 0x0A, CHR 0x0B, CHR 0x0C, CHR 0x0D, CHR 0x1C, CHR 0x1D,
                 CHR 0x1E, CHR 0x1F, CHR 0x20, CHR 0x85, CHR 0xA0]"

definition isspace :: "char \<Rightarrow> bool" where
  "isspace c = (c \<in> set whitespace)"

definition strip :: "string \<Rightarrow> string" where
  "strip s = rev (dropWhile isspace (rev (dropWhile isspace s)))"

text \<open>The guard of \<open>translate_text\<close>: \<open>not text or not text.strip()\<close>.\<close>

definition blank :: "string \<Rightarrow> bool" where
  "blank text = (text = [] \<or> strip text = [])"

section \<open>Document trees\<close>

text \<open>
  The value \<open>json.load\<close> returns: a \<open>dict\<close> keeps its items in insertion order and
  is an association list here (its keys are distinct), a \<open>list\<close> is a list. The walkers
  never look inside a number, so one constructor stands for all of them.
\<close>

datatype json =
    JNull
  | JBool bool
  | JNumber int
  | JString string
  | JArray "json list"
  | JObject "(string \<times> json) list"

text \<open>\<open>isinstance(value, str)\<close>, \<open>isinstance(value, list)\<close> and the payload they guard.\<close>

fun isinstance_str :: "json \<Rightarrow> bool" where
  "isinstance_str (JString s) = True"
| "isinstance_str v = False"

fun isinstance_list :: "json \<Rightarrow> bool" where
  "isinstance_list (JArray xs) = True"
| "isinstance_list v = False"

fun str_of :: "json \<Rightarrow> string" where
  "str_of (JString s) = s"
| "str_of v = []"

fun list_of_json :: "json \<Rightarrow> json list" where
  "list_of_json (JArray xs) = xs"
| "list_of_json v = []"

section \<open>Program state\<close>

text \<open>
  What \<open>requests.post\<close> and the lines that read its reply (158 to 161) can do: deliver a
  reply whose \<open>content\<close> field is a string, or raise. \<open>KeyboardInterrupt\<close> stands for the
  interruption of an outstanding call; the \<open>except KeyboardInterrupt\<close> clause and
  \<open>signal_handler\<close> both save the dictionary and call \<open>sys.exit(0)\<close>.
\<close>

datatype response =
    Content string
  | KeyboardInterrupt
  | Timeout
  | RequestException
  | JSONDecodeError
  | OtherException

text \<open>The provider is the environment: its reply may depend on every earlier exchange.\<close>

type_synonym provider = "(string \<times> response) list \<Rightarrow> string \<Rightarrow> response"

text \<open>The value bound to \<open>file_path\<close>: a \<open>str\<close> or a \<open>pathlib.Path\<close>.\<close>

datatype pathlike = PyStr string | PyPath string

text \<open>Class \<open>ProgressBar\<close>; \<open>width\<close> and \<open>desc\<close> only feed \<open>draw\<close>, which prints.\<close>

record ProgressBar =
  total :: nat
  current :: nat
  api_calls :: nat
  cache_hits :: nat

text \<open>
  The objects and files the program works on. \<open>file_path\<close> and \<open>dictionary\<close> are the
  attributes of the one \<open>TranslationDictionary\<close> object, \<open>progress\<close> is the
  \<open>ProgressBar\<close> object handed to \<open>translate_text\<close>; the three files hold parsed
  JSON (\<open>None\<close>: the file does not exist), \<open>json.dump\<close> being a function of the tree it
  writes. \<open>exchanges\<close> records the provider calls made, most recent first, and
  \<open>invoked\<close> the texts \<open>translate_text\<close> was called with: both are observations, read by
  no branch of the program. File operations are taken to succeed.
\<close>

record world =
  file_path :: pathlike
  dictionary :: "(string \<times> string) list"
  progress :: ProgressBar
  dictionary_file :: "(string \<times> string) list option"
  package_json :: "json option"
  contributions_json :: "json option"
  exchanges :: "(string \<times> response) list"
  invoked :: "string list"

datatype exn = AttributeError | UnboundLocalError

text \<open>How a call ends: it returns, the process exits (\<open>sys.exit\<close>), or an exception escapes.\<close>

datatype 'a result = Return 'a world | Exit int world | Raise exn world

fun world_of :: "'a result \<Rightarrow> world" where
  "world_of (Return x w) = w"
| "world_of (Exit c w) = w"
| "world_of (Raise e w) = w"

text \<open>
  Sequencing: the statements after a call run only when the call returns; an exit or an
  exception passes through them.
\<close>

definition and_then :: "'a result \<Rightarrow> ('a \<Rightarrow> world \<Rightarrow> 'b result) \<Rightarrow> 'b result" where
  "and_then r f =
     (case r of Return x w \<Rightarrow> f x w | Exit c w \<Rightarrow> Exit c w | Raise e w \<Rightarrow> Raise e w)"

section \<open>TranslationDictionary\<close>

text \<open>
  The methods \<open>save\<close>, \<open>get\<close>, \<open>set\<close> and \<open>exists\<close>. The mapping is an association list
  in insertion order; an assignment to a key already present replaces its value in
  place, as a \<open>dict\<close> does. The keys and values of the dictionary file are strings.
\<close>

definition dict_save :: "world \<Rightarrow> world" where
  "dict_save w = w\<lparr>dictionary_file := Some (dictionary w)\<rparr>"

definition dict_get :: "string \<Rightarrow> world \<Rightarrow> string option" where
  "dict_get text w = map_of (dictionary w) text"

definition dict_set :: "string \<Rightarrow> string \<Rightarrow> world \<Rightarrow> world" where
  "dict_set text translated w =
     dict_save (w\<lparr>dictionary := AList.update text translated (dictionary w)\<rparr>)"

definition dict_exists :: "string \<Rightarrow> world \<Rightarrow> bool" where
  "dict_exists text w = (text \<in> set (map fst (dictionary w)))"

text \<open>
  \<open>load\<close> calls \<open>self.file_path.exists()\<close>: a \<open>Path\<close> has the method, a \<open>str\<close> has not
  and the call raises \<open>AttributeError\<close>.
\<close>

definition dict_load :: "world \<Rightarrow> unit result" where
  "dict_load w =
     (case file_path w of
        PyStr name \<Rightarrow> Raise AttributeError w
      | PyPath name \<Rightarrow>
          (case dictionary_file w of
             None \<Rightarrow> Return () w
           | Some entries \<Rightarrow> Return () (w\<lparr>dictionary := entries\<rparr>)))"

definition dict_init :: "pathlike \<Rightarrow> world \<Rightarrow> unit result" where
  "dict_init fp w = dict_load (w\<lparr>file_path := fp, dictionary := []\<rparr>)"

section \<open>ProgressBar\<close>

text \<open>\<open>__init__\<close> and \<open>update\<close>; \<open>draw\<close> and \<open>finish\<close> print and change no attribute.\<close>

definition ProgressBar_init :: "nat \<Rightarrow> ProgressBar" where
  "ProgressBar_init n = \<lparr>total = n, current = 0, api_calls = 0, cache_hits = 0\<rparr>"

definition update :: "nat \<Rightarrow> bool \<Rightarrow> bool \<Rightarrow> ProgressBar \<Rightarrow> ProgressBar" where
  "update n api_call cache_hit pb =
     pb\<lparr>current := current pb + n,
        api_calls := (if api_call then api_calls pb + 1 else api_calls pb),
        cache_hits := (if cache_hit then cache_hits pb + 1 else cache_hits pb)\<rparr>"

section \<open>translate_text\<close>

text \<open>
  Lines 119 to 180, in their order: the test for a blank text, the lookup, the counter
  moved before the request, the request, and the clauses of the \<open>try\<close> statement. The
  mapping and the counters are those of the world; \<open>api_key\<close> only goes into a header
  of the request. On the cache-hit path \<open>exists\<close> has just held, so \<open>get\<close> returns an
  entry.
\<close>

definition translate_text :: "provider \<Rightarrow> string \<Rightarrow> world \<Rightarrow> string result" where
  "translate_text provider text w0 =
     (let w = w0\<lparr>invoked := text # invoked w0\<rparr> in
      if blank text then Return text w
      else if dict_exists text w then
        (let w1 = w\<lparr>progress := update 1 False True (progress w)\<rparr>
         in Return (the (dict_get text w1)) w1)
      else
        (let w1 = w\<lparr>progress := update 1 True False (progress w)\<rparr>;
             reply = provider (exchanges w1) text;
             w2 = w1\<lparr>exchanges := (text, reply) # exchanges w1\<rparr>
         in case reply of
              Content content \<Rightarrow>
                (let translated = strip content
                 in Return translated (dict_set text translated w2))
            | KeyboardInterrupt \<Rightarrow> Exit 0 (dict_save w2)
            | Timeout \<Rightarrow> Return text w2
            | RequestException \<Rightarrow> Return text w2
            | JSONDecodeError \<Rightarrow> Return text w2
            | OtherException \<Rightarrow> Return text w2))"

text \<open>
  The assignments \<open>obj[key] = translate_text(value, ...)\<close> and
  \<open>value[i] = translate_text(item, ...)\<close>: the string at that place becomes the string
  returned.
\<close>

definition translate_leaf :: "provider \<Rightarrow> json \<Rightarrow> world \<Rightarrow> json result" where
  "translate_leaf p value w =
     and_then (translate_text p (str_of value) w) (\<lambda>t w1. Return (JString t) w1)"

section \<open>The settings walker\<close>

definition REPLACE_TARGET_KEYS :: "string list" where
  "REPLACE_TARGET_KEYS =
     [''title'', ''label'', ''contents'', ''displayName'', ''description'',
      ''markdownDescription'']"

text \<open>
  \<open>count_translatable_items\<close>. The loop over \<open>obj.items()\<close> is \<open>count_items\<close>, the loop
  over a list is \<open>count_elems\<close>; each adds to \<open>count\<close> what its item contributes.
\<close>

fun count_translatable_items :: "json \<Rightarrow> nat"
  and count_items :: "(string \<times> json) list \<Rightarrow> nat"
  and count_elems :: "json list \<Rightarrow> nat"
where
  "count_translatable_items (JObject items) = count_items items"
| "count_translatable_items (JArray elems) = count_elems elems"
| "count_translatable_items JNull = 0"
| "count_translatable_items (JBool b) = 0"
| "count_translatable_items (JNumber n) = 0"
| "count_translatable_items (JString s) = 0"
| "count_items [] = 0"
| "count_items ((key, value) # rest) =
     (if key \<in> set REPLACE_TARGET_KEYS \<and> isinstance_str value then 1
      else if key = ''enumDescriptions'' \<and> isinstance_list value
        then length (filter isinstance_str (list_of_json value))
      else count_translatable_items value)
     + count_items rest"
| "count_elems [] = 0"
| "count_elems (item # rest) = count_translatable_items item + count_elems rest"

text \<open>
  The loop of lines 206 to 208 over an \<open>enumDescriptions\<close> list: a string element is
  replaced by its translation, any other element stays.
\<close>

fun translate_enum :: "provider \<Rightarrow> json list \<Rightarrow> world \<Rightarrow> json list result" where
  "translate_enum p [] w = Return [] w"
| "translate_enum p (item # rest) w =
     and_then (if isinstance_str item then translate_leaf p item w else Return item w)
       (\<lambda>item' w1. and_then (translate_enum p rest w1)
         (\<lambda>rest' w2. Return (item' # rest') w2))"

text \<open>
  \<open>traverse_and_translate\<close> mutates the tree in place; the model returns the tree as it
  is after the call. \<open>path\<close> is only built, never read.
\<close>

fun traverse_and_translate :: "provider \<Rightarrow> json \<Rightarrow> world \<Rightarrow> json result"
  and traverse_items :: "provider \<Rightarrow> (string \<times> json) list \<Rightarrow> world \<Rightarrow> (string \<times> json) list result"
  and traverse_elems :: "provider \<Rightarrow> json list \<Rightarrow> world \<Rightarrow> json list result"
where
  "traverse_and_translate p (JObject items) w =
     and_then (traverse_items p items w) (\<lambda>items' w1. Return (JObject items') w1)"
| "traverse_and_translate p (JArray elems) w =
     and_then (traverse_elems p elems w) (\<lambda>elems' w1. Return (JArray elems') w1)"
| "traverse_and_translate p JNull w = Return JNull w"
| "traverse_and_translate p (JBool b) w = Return (JBool b) w"
| "traverse_and_translate p (JNumber n) w = Return (JNumber n) w"
| "traverse_and_translate p (JString s) w = Return (JString s) w"
| "traverse_items p [] w = Return [] w"
| "traverse_items p ((key, value) # rest) w =
     and_then
       (if key \<in> set REPLACE_TARGET_KEYS \<and> isinstance_str value then
          translate_leaf p value w
        else if key = ''enumDescriptions'' \<and> isinstance_list value then
          and_then (translate_enum p (list_of_json value) w)
            (\<lambda>elems' w1. Return (JArray elems') w1)
        else traverse_and_translate p value w)
       (\<lambda>value' w1. and_then (traverse_items p rest w1)
         (\<lambda>rest' w2. Return ((key, value') # rest') w2))"
| "traverse_elems p [] w = Return [] w"
| "traverse_elems p (item # rest) w =
     and_then (traverse_and_translate p item w)
       (\<lambda>item' w1. and_then (traverse_elems p rest w1)
         (\<lambda>rest' w2. Return (item' # rest') w2))"

section \<open>The contributions walker\<close>

fun count_contributions_translatable_items :: "json \<Rightarrow> nat"
  and count_contributions_items :: "(string \<times> json) list \<Rightarrow> nat"
  and count_contributions_elems :: "json list \<Rightarrow> nat"
where
  "count_contributions_translatable_items (JObject items) = count_contributions_items items"
| "count_contributions_translatable_items (JArray elems) = count_contributions_elems elems"
| "count_contributions_translatable_items JNull = 0"
| "count_contributions_translatable_items (JBool b) = 0"
| "count_contributions_translatable_items (JNumber n) = 0"
| "count_contributions_translatable_items (JString s) = 0"
| "count_contributions_items [] = 0"
| "count_contributions_items ((key, value) # rest) =
     (if key = ''label'' \<and> isinstance_str value then 1
      else if key = ''name'' \<and> isinstance_str value then 1
      else if key = ''contents'' \<and> isinstance_str value then 1
      else if key \<in> set [''title'', ''description'']
        then count_contributions_translatable_items value
      else count_contributions_translatable_items value)
     + count_contributions_items rest"
| "count_contributions_elems [] = 0"
| "count_contributions_elems (item # rest) =
     count_contributions_translatable_items item + count_contributions_elems rest"

text \<open>The closure \<open>translate_in_object\<close> of \<open>translate_contributions_file\<close>.\<close>

fun translate_in_object :: "provider \<Rightarrow> json \<Rightarrow> world \<Rightarrow> json result"
  and translate_in_items :: "provider \<Rightarrow> (string \<times> json) list \<Rightarrow> world \<Rightarrow> (string \<times> json) list result"
  and translate_in_elems :: "provider \<Rightarrow> json list \<Rightarrow> world \<Rightarrow> json list result"
where
  "translate_in_object p (JObject items) w =
     and_then (translate_in_items p items w) (\<lambda>items' w1. Return (JObject items') w1)"
| "translate_in_object p (JArray elems) w =
     and_then (translate_in_elems p elems w) (\<lambda>elems' w1. Return (JArray elems') w1)"
| "translate_in_object p JNull w = Return JNull w"
| "translate_in_object p (JBool b) w = Return (JBool b) w"
| "translate_in_object p (JNumber n) w = Return (JNumber n) w"
| "translate_in_object p (JString s) w = Return (JString s) w"
| "translate_in_items p [] w = Return [] w"
| "translate_in_items p ((key, value) # rest) w =
     and_then
       (if key = ''label'' \<and> isinstance_str value then translate_leaf p value w
        else if key = ''name'' \<and> isinstance_str value then translate_leaf p value w
        else if key = ''contents'' \<and> isinstance_str value then translate_leaf p value w
        else if key \<in> set [''title'', ''description''] \<and> isinstance_str value
          then translate_leaf p value w
        else translate_in_object p value w)
       (\<lambda>value' w1. and_then (translate_in_items p rest w1)
         (\<lambda>rest' w2. Return ((key, value') # rest') w2))"
| "translate_in_elems p [] w = Return [] w"
| "translate_in_elems p (item # rest) w =
     and_then (translate_in_object p item w)
       (\<lambda>item' w1. and_then (translate_in_elems p rest w1)
         (\<lambda>rest' w2. Return (item' # rest') w2))"

section \<open>The orchestrator\<close>

text \<open>
  \<open>remaining\<close> is \<open>total_items - already_translated\<close> over Python's integers;
  \<open>already_translated\<close> counts the keys of the dictionary, which are all strings.
\<close>

definition remaining_items :: "nat \<Rightarrow> world \<Rightarrow> int" where
  "remaining_items total_items w = int total_items - int (length (dictionary w))"

definition translate_contributions_file :: "provider \<Rightarrow> world \<Rightarrow> bool result" where
  "translate_contributions_file p w =
     (case contributions_json w of
        None \<Rightarrow> Return False w
      | Some data \<Rightarrow>
          (let total_items = count_contributions_translatable_items data in
           if total_items = 0 then Return True w
           else
             and_then (translate_in_object p data (w\<lparr>progress := ProgressBar_init total_items\<rparr>))
               (\<lambda>data' w1. Return True (w1\<lparr>contributions_json := Some data'\<rparr>))))"

text \<open>
  \<open>signal_handler\<close>, run when SIGINT or SIGTERM is delivered: it saves the dictionary
  and exits with status 0.
\<close>

definition signal_handler :: "world \<Rightarrow> unit result" where
  "signal_handler w = Exit 0 (dict_save w)"

text \<open>
  Lines 341 to 356 of \<open>main\<close>. The second argument is the local variable \<open>progress\<close>:
  \<open>None\<close> when no assignment has bound it, and then reading it on line 341 raises
  \<open>UnboundLocalError\<close>.
\<close>

definition main_finish :: "provider \<Rightarrow> ProgressBar option \<Rightarrow> json \<Rightarrow> world \<Rightarrow> unit result" where
  "main_finish p local_progress data w =
     (case local_progress of
        None \<Rightarrow> Raise UnboundLocalError w
      | Some pb \<Rightarrow>
          and_then (translate_contributions_file p (w\<lparr>package_json := Some data\<rparr>))
            (\<lambda>ok w1. Return () (dict_save w1)))"

text \<open>
  \<open>main\<close>, with the value of the constant \<open>DICTIONARY_FILE\<close> as its first argument and
  the string \<open>get_api_key()\<close> returns as its third.
\<close>

definition main_with :: "pathlike \<Rightarrow> provider \<Rightarrow> string \<Rightarrow> world \<Rightarrow> unit result" where
  "main_with dictionary_path p api_key w =
     and_then (dict_init dictionary_path w)
       (\<lambda>u w1.
          if api_key = [] then Exit 1 w1
          else
            (case package_json w1 of
               None \<Rightarrow> Exit 1 w1
             | Some data \<Rightarrow>
                 (let total_items = count_translatable_items data;
                      remaining = remaining_items total_items w1;
                      w2 = w1\<lparr>progress := ProgressBar_init total_items\<rparr>
                  in if remaining \<le> 0 then
                       and_then (traverse_and_translate p data w2)
                         (\<lambda>data' w3. main_finish p None data' w3)
                     else
                       and_then (traverse_and_translate p data w2)
                         (\<lambda>data' w3. main_finish p (Some (progress w3)) data' w3))))"

definition DICTIONARY_FILE :: pathlike where
  "DICTIONARY_FILE = PyStr ''translation_dictionary.json''"

definition main :: "provider \<Rightarrow> string \<Rightarrow> world \<Rightarrow> unit result" where
  "main = main_with DICTIONARY_FILE"

section \<open>Devices for stating properties\<close>

text \<open>
  A sequence of \<open>translate_text\<close> calls, one per text of a list, each starting in the
  world the one before it left; the same loop as \<open>translate_enum\<close> over a list of strings.
\<close>

fun translate_all :: "provider \<Rightarrow> string list \<Rightarrow> world \<Rightarrow> string list result" where
  "translate_all p [] w = Return [] w"
| "translate_all p (t # ts) w =
     and_then (translate_text p t w)
       (\<lambda>t' w1. and_then (translate_all p ts w1) (\<lambda>ts' w2. Return (t' # ts') w2))"

text \<open>How a call ends and the world it leaves, without the value it returns.\<close>

definition outcome :: "'a result \<Rightarrow> unit result" where
  "outcome r = and_then r (\<lambda>x w. Return () w)"

text \<open>
  The texts at the places the settings walker selects, in the order of the walk: the
  strings \<open>count_translatable_items\<close> counts. \<open>length_settings_leaves\<close> and
  \<open>traverse_as_calls\<close> below tie the list to the two walkers.
\<close>

fun settings_leaves :: "json \<Rightarrow> string list"
  and settings_leaves_items :: "(string \<times> json) list \<Rightarrow> string list"
  and settings_leaves_elems :: "json list \<Rightarrow> string list"
where
  "settings_leaves (JObject items) = settings_leaves_items items"
| "settings_leaves (JArray elems) = settings_leaves_elems elems"
| "settings_leaves JNull = []"
| "settings_leaves (JBool b) = []"
| "settings_leaves (JNumber n) = []"
| "settings_leaves (JString s) = []"
| "settings_leaves_items [] = []"
| "settings_leaves_items ((key, value) # rest) =
     (if key \<in> set REPLACE_TARGET_KEYS \<and> isinstance_str value then [str_of value]
      else if key = ''enumDescriptions'' \<and> isinstance_list value
        then map str_of (filter isinstance_str (list_of_json value))
      else settings_leaves value)
     @ settings_leaves_items rest"
| "settings_leaves_elems [] = []"
| "settings_leaves_elems (item # rest) = settings_leaves item @ settings_leaves_elems rest"

text \<open>The texts at the places \<open>translate_in_object\<close> selects, in the order of its walk.\<close>

fun contributions_leaves :: "json \<Rightarrow> string list"
  and contributions_leaves_items :: "(string \<times> json) list \<Rightarrow> string list"
  and contributions_leaves_elems :: "json list \<Rightarrow> string list"
where
  "contributions_leaves (JObject items) = contributions_leaves_items items"
| "contributions_leaves (JArray elems) = contributions_leaves_elems elems"
| "contributions_leaves JNull = []"
| "contributions_leaves (JBool b) = []"
| "contributions_leaves (JNumber n) = []"
| "contributions_leaves (JString s) = []"
| "contributions_leaves_items [] = []"
| "contributions_leaves_items ((key, value) # rest) =
     (if key \<in> set [''label'', ''name'', ''contents'', ''title'', ''description'']
         \<and> isinstance_str value
      then [str_of value] else contributions_leaves value)
     @ contributions_leaves_items rest"
| "contributions_leaves_elems [] = []"
| "contributions_leaves_elems (item # rest) =
     contributions_leaves item @ contributions_leaves_elems rest"

text \<open>No member named \<open>title\<close> or \<open>description\<close>, anywhere in the tree, holds a string.\<close>

fun no_string_title_description :: "json \<Rightarrow> bool"
  and no_string_title_description_items :: "(string \<times> json) list \<Rightarrow> bool"
  and no_string_title_description_elems :: "json list \<Rightarrow> bool"
where
  "no_string_title_description (JObject items) = no_string_title_description_items items"
| "no_string_title_description (JArray elems) = no_string_title_description_elems elems"
| "no_string_title_description JNull = True"
| "no_string_title_description (JBool b) = True"
| "no_string_title_description (JNumber n) = True"
| "no_string_title_description (JString s) = True"
| "no_string_title_description_items [] = True"
| "no_string_title_description_items ((key, value) # rest) =
     (\<not> (key \<in> set [''title'', ''description''] \<and> isinstance_str value)
      \<and> no_string_title_description value
      \<and> no_string_title_description_items rest)"
| "no_string_title_description_elems [] = True"
| "no_string_title_description_elems (item # rest) =
     (no_string_title_description item \<and> no_string_title_description_elems rest)"

text \<open>
  The settings tree with \<open>g\<close> applied to the string at every selected place: the tree
  the translate step of the walker is to produce when each leaf \<open>t\<close> is replaced by
  \<open>g t\<close>.
\<close>

fun translated_settings :: "(string \<Rightarrow> string) \<Rightarrow> json \<Rightarrow> json"
  and translated_items :: "(string \<Rightarrow> string) \<Rightarrow> (string \<times> json) list \<Rightarrow> (string \<times> json) list"
  and translated_elems :: "(string \<Rightarrow> string) \<Rightarrow> json list \<Rightarrow> json list"
where
  "translated_settings g (JObject items) = JObject (translated_items g items)"
| "translated_settings g (JArray elems) = JArray (translated_elems g elems)"
| "translated_settings g JNull = JNull"
| "translated_settings g (JBool b) = JBool b"
| "translated_settings g (JNumber n) = JNumber n"
| "translated_settings g (JString s) = JString s"
| "translated_items g [] = []"
| "translated_items g ((key, value) # rest) =
     (key,
      if key \<in> set REPLACE_TARGET_KEYS \<and> isinstance_str value then JString (g (str_of value))
      else if key = ''enumDescriptions'' \<and> isinstance_list value then
        JArray (map (\<lambda>item. if isinstance_str item then JString (g (str_of item)) else item)
                  (list_of_json value))
      else translated_settings g value)
     # translated_items g rest"
| "translated_elems g [] = []"
| "translated_elems g (item # rest) = translated_settings g item # translated_elems g rest"

text \<open>
  What a text becomes in a run that starts with the mapping \<open>cache\<close> and meets a provider
  whose reply to a text is always \<open>reply t\<close>: itself when blank, the cached translation
  when there is one, else the stripped content of the reply, or itself when the call fails.
\<close>

definition rendering :: "(string \<rightharpoonup> string) \<Rightarrow> (string \<Rightarrow> response) \<Rightarrow> string \<Rightarrow> string" where
  "rendering cache reply t =
     (if blank t then t
      else case cache t of
             Some translated \<Rightarrow> translated
           | None \<Rightarrow> (case reply t of Content c \<Rightarrow> strip c | _ \<Rightarrow> t))"

text \<open>The call returns \<open>x\<close> and leaves a world in which \<open>J\<close> holds.\<close>

definition returns :: "(world \<Rightarrow> bool) \<Rightarrow> 'a result \<Rightarrow> 'a \<Rightarrow> bool" where
  "returns J r x = (\<exists>w. r = Return x w \<and> J w)"

text \<open>
  The dictionary of \<open>w\<close> is \<open>cache\<close> extended by translations that \<open>reply\<close> gives for
  texts \<open>cache\<close> lacks.
\<close>

definition consistent :: "(string \<rightharpoonup> string) \<Rightarrow> (string \<Rightarrow> response) \<Rightarrow> world \<Rightarrow> bool" where
  "consistent cache reply w =
     (\<forall>t. map_of (dictionary w) t = cache t
          \<or> (cache t = None \<and> (\<exists>c. reply t = Content c \<and> map_of (dictionary w) t = Some (strip c))))"

text \<open>
  For each text of the list that is not blank and that \<open>cache\<close> lacks, the provider
  replies \<open>reply t\<close> whatever was exchanged before, and is not interrupted.
\<close>

definition answers :: "provider \<Rightarrow> (string \<Rightarrow> response) \<Rightarrow> (string \<rightharpoonup> string) \<Rightarrow> string list \<Rightarrow> bool" where
  "answers p reply cache ts =
     list_all (\<lambda>t. blank t \<or> (\<exists>r. cache t = Some r)
                 \<or> ((\<forall>h. p h t = reply t) \<and> reply t \<noteq> KeyboardInterrupt)) ts"

text \<open>What a text becomes when only the mapping \<open>cache\<close> is used.\<close>

definition from_cache :: "(string \<rightharpoonup> string) \<Rightarrow> string \<Rightarrow> string" where
  "from_cache cache t =
     (if blank t then t else case cache t of Some translated \<Rightarrow> translated | None \<Rightarrow> t)"

text \<open>Every translation the provider has delivered is in the dictionary of the object.\<close>

definition retained :: "world \<Rightarrow> bool" where
  "retained w =
     (\<forall>t c. (t, Content c) \<in> set (exchanges w) \<longrightarrow> map_of (dictionary w) t = Some (strip c))"

text \<open>
  The settings tree with the strings at the selected places replaced, in the order of
  the walk, by the strings of a list: a member takes as many strings from the front of
  the list as it has selected places, the members after it take theirs from what is
  left. \<open>replaced_enum\<close> does the same for the elements of an \<open>enumDescriptions\<close> list.
\<close>

fun replaced_enum :: "json list \<Rightarrow> string list \<Rightarrow> json list" where
  "replaced_enum [] rs = []"
| "replaced_enum (item # rest) rs =
     (if isinstance_str item then JString (hd rs) # replaced_enum rest (tl rs)
      else item # replaced_enum rest rs)"

fun replaced_settings :: "json \<Rightarrow> string list \<Rightarrow> json"
  and replaced_items :: "(string \<times> json) list \<Rightarrow> string list \<Rightarrow> (string \<times> json) list"
  and replaced_elems :: "json list \<Rightarrow> string list \<Rightarrow> json list"
where
  "replaced_settings (JObject items) rs = JObject (replaced_items items rs)"
| "replaced_settings (JArray elems) rs = JArray (replaced_elems elems rs)"
| "replaced_settings JNull rs = JNull"
| "replaced_settings (JBool b) rs = JBool b"
| "replaced_settings (JNumber n) rs = JNumber n"
| "replaced_settings (JString s) rs = JString s"
| "replaced_items [] rs = []"
| "replaced_items ((key, value) # rest) rs =
     (key,
      if key \<in> set REPLACE_TARGET_KEYS \<and> isinstance_str value then JString (hd rs)
      else if key = ''enumDescriptions'' \<and> isinstance_list value
        then JArray (replaced_enum (list_of_json value)
               (take (length (settings_leaves_items [(key, value)])) rs))
      else replaced_settings value (take (length (settings_leaves_items [(key, value)])) rs))
     # replaced_items rest (drop (length (settings_leaves_items [(key, value)])) rs)"
| "replaced_elems [] rs = []"
| "replaced_elems (item # rest) rs =
     replaced_settings item (take (length (settings_leaves item)) rs)
     # replaced_elems rest (drop (length (settings_leaves item)) rs)"

text \<open>The same for the places \<open>translate_in_object\<close> selects.\<close>

fun replaced_contributions :: "json \<Rightarrow> string list \<Rightarrow> json"
  and replaced_contributions_items :: "(string \<times> json) list \<Rightarrow> string list \<Rightarrow> (string \<times> json) list"
  and replaced_contributions_elems :: "json list \<Rightarrow> string list \<Rightarrow> json list"
where
  "replaced_contributions (JObject items) rs = JObject (replaced_contributions_items items rs)"
| "replaced_contributions (JArray elems) rs = JArray (replaced_contributions_elems elems rs)"
| "replaced_contributions JNull rs = JNull"
| "replaced_contributions (JBool b) rs = JBool b"
| "replaced_contributions (JNumber n) rs = JNumber n"
| "replaced_contributions (JString s) rs = JString s"
| "replaced_contributions_items [] rs = []"
| "replaced_contributions_items ((key, value) # rest) rs =
     (key,
      if key \<in> set [''label'', ''name'', ''contents'', ''title'', ''description'']
         \<and> isinstance_str value
      then JString (hd rs)
      else replaced_contributions value
             (take (length (contributions_leaves_items [(key, value)])) rs))
     # replaced_contributions_items rest
         (drop (length (contributions_leaves_items [(key, value)])) rs)"
| "replaced_contributions_elems [] rs = []"
| "replaced_contributions_elems (item # rest) rs =
     replaced_contributions item (take (length (contributions_leaves item)) rs)
     # replaced_contributions_elems rest (drop (length (contributions_leaves item)) rs)"

text \<open>
  The recoverable failures of a provider call: the replies \<open>translate_text\<close> answers by
  returning the text it was given.
\<close>

definition failed :: "response \<Rightarrow> bool" where
  "failed reply = (reply \<in> {Timeout, RequestException, JSONDecodeError, OtherException})"

text \<open>
  What has become of a selected text \<open>t\<close> when a pass has put \<open>r\<close> in its place, \<open>entries\<close>
  being the dictionary and \<open>calls\<close> the provider calls of the pass: a blank text is
  left as it is; any other text has been replaced by its entry in the dictionary, or is
  left as it is and a call for that very text has failed.
\<close>

definition handled :: "(string \<rightharpoonup> string) \<Rightarrow> (string \<times> response) list \<Rightarrow> string \<Rightarrow> string \<Rightarrow> bool" where
  "handled entries calls t r =
     (if blank t then r = t
      else entries t = Some r \<or> (r = t \<and> list_ex (\<lambda>(u, reply). u = t \<and> failed reply) calls))"

text \<open>The mapping a \<open>load\<close> through a \<open>Path\<close> finds: empty when there is no file.\<close>

definition stored_entries :: "world \<Rightarrow> (string \<times> string) list" where
  "stored_entries w = (case dictionary_file w of None \<Rightarrow> [] | Some entries \<Rightarrow> entries)"

subsection \<open>Example inputs\<close>

text \<open>A world with no file and nothing done yet, and a provider that knows three words.\<close>

definition world0 :: world where
  "world0 =
     \<lparr>file_path = PyPath ''translation_dictionary.json'', dictionary = [],
      progress = ProgressBar_init 0, dictionary_file = None, package_json = None,
      contributions_json = None, exchanges = [], invoked = []\<rparr>"

definition phrasebook :: provider where
  "phrasebook history text =
     (if text = ''Hello'' then Content ''Ni hao''
      else if text = ''Low'' then Content ''Di''
      else if text = ''High'' then Content '' Gao ''
      else Timeout)"

definition settings_example :: json where
  "settings_example =
     JObject [(''title'', JString ''Hello''),
              (''enumDescriptions'', JArray [JString ''Low'', JString [], JString ''High''])]"

definition contributions_example :: json where
  "contributions_example =
     JObject [(''commands'',
               JArray [JObject [(''label'', JString ''Hello''), (''enabled'', JBool True)]])]"

definition three_leaves :: json where
  "three_leaves =
     JObject [(''title'', JString ''Hello''), (''description'', JString ''Unknown''),
              (''label'', JString ''Low'')]"

text \<open>A provider that delivers one translation and is interrupted on every other call.\<close>

definition impatient :: provider where
  "impatient history text = (if text = ''Hello'' then Content ''Ni hao'' else KeyboardInterrupt)"

text \<open>
  Worlds before a run: \<open>package.json\<close> is \<open>{"title": "Hello"}\<close>, with no dictionary file
  (\<open>cold_world\<close>) or with the dictionary file \<open>{"Hello": "Ni hao"}\<close> (\<open>warm_world\<close>); and
  a \<open>package.json\<close> with two leaves.
\<close>

definition cold_world :: world where
  "cold_world = world0\<lparr>package_json := Some (JObject [(''title'', JString ''Hello'')])\<rparr>"

definition warm_world :: world where
  "warm_world = cold_world\<lparr>dictionary_file := Some [(''Hello'', ''Ni hao'')]\<rparr>"

definition two_leaves_world :: world where
  "two_leaves_world =
     world0\<lparr>package_json :=
       Some (JObject [(''title'', JString ''Hello''), (''description'', JString ''World'')])\<rparr>"

text \<open>The dictionary file named through a \<open>pathlib.Path\<close>.\<close>

definition dictionary_as_path :: pathlike where
  "dictionary_as_path = PyPath ''translation_dictionary.json''"

text \<open>
  A provider whose first call times out and whose later calls succeed, and a tree with
  the same text at two places.
\<close>

definition flaky :: provider where
  "flaky history text = (if history = [] then Timeout else Content ''Di'')"

definition twice_low :: json where
  "twice_low = JObject [(''enumDescriptions'', JArray [JString ''Low'', JString ''Low''])]"

definition settings_example_translated :: json where
  "settings_example_translated =
     JObject [(''title'', JString ''Ni hao''),
              (''enumDescriptions'', JArray [JString ''Di'', JString [], JString ''Gao''])]"

definition settings_example_cache :: "(string \<times> string) list" where
  "settings_example_cache = [(''Hello'', ''Ni hao''), (''Low'', ''Di''), (''High'', ''Gao'')]"

text \<open>
  The dictionary file a completed run over the \<open>package.json\<close> of \<open>two_leaves_world\<close>
  leaves, and the world before the next run.
\<close>

definition two_leaves_cache :: "(string \<times> string) list" where
  "two_leaves_cache = [(''Hello'', ''Ni hao''), (''World'', ''Shijie'')]"

definition two_leaves_warm_world :: world where
  "two_leaves_warm_world = two_leaves_world\<lparr>dictionary_file := Some two_leaves_cache\<rparr>"

section \<open>Basic facts\<close>

lemmas main_defs = main_def main_with_def main_finish_def translate_contributions_file_def
  dict_init_def dict_load_def remaining_items_def DICTIONARY_FILE_def cold_world_def
  warm_world_def two_leaves_world_def impatient_def dictionary_as_path_def
  two_leaves_cache_def two_leaves_warm_world_def

lemmas eval_defs = translate_text_def translate_leaf_def and_then_def blank_def strip_def
  isspace_def whitespace_def dict_exists_def dict_get_def dict_set_def dict_save_def
  update_def ProgressBar_init_def REPLACE_TARGET_KEYS_def world0_def phrasebook_def
  settings_example_def contributions_example_def three_leaves_def Let_def

lemmas more_defs = flaky_def twice_low_def settings_example_translated_def
  settings_example_cache_def

lemma and_then_Return [simp]: "and_then (Return x w) f = f x w"
  by (simp add: and_then_def)

lemma and_then_Exit [simp]: "and_then (Exit c w) f = Exit c w"
  by (simp add: and_then_def)

lemma and_then_Raise [simp]: "and_then (Raise e w) f = Raise e w"
  by (simp add: and_then_def)

lemma world_of_and_then_Return [simp]:
  "world_of (and_then r (\<lambda>x. Return (f x))) = world_of r"
  by (cases r) simp_all

lemma outcome_simps [simp]:
  "outcome (Return x w) = Return () w"
  "outcome (Exit c w) = Exit c w"
  "outcome (Raise e w) = Raise e w"
  by (simp_all add: outcome_def)

lemma world_of_outcome [simp]: "world_of (outcome r) = world_of r"
  by (cases r) simp_all

lemma outcome_and_then:
  assumes "\<And>x w1. outcome (f x w1) = g w1"
  shows "outcome (and_then r f) = and_then (outcome r) (\<lambda>u. g)"
  using assms by (cases r) simp_all

lemma outcome_and_then_Return [simp]:
  "outcome (and_then r (\<lambda>x. Return (f x))) = outcome r"
  by (cases r) simp_all

lemma same_outcome_Return:
  assumes "outcome r = outcome r'" and "r = Return x w'"
  shows "\<exists>y. r' = Return y w'"
  using assms by (cases r') simp_all

lemma same_outcome_world:
  assumes "outcome r = outcome r'"
  shows "world_of r = world_of r'"
  using assms by (metis world_of_outcome)

subsection \<open>The five ways through \<open>translate_text\<close>\<close>

lemma translate_text_blank:
  "blank t \<Longrightarrow> translate_text p t w = Return t (w\<lparr>invoked := t # invoked w\<rparr>)"
  by (simp add: translate_text_def)

lemma translate_text_hit:
  "\<not> blank t \<Longrightarrow> dict_exists t w \<Longrightarrow>
   translate_text p t w =
     Return (the (dict_get t w))
       (w\<lparr>invoked := t # invoked w, progress := update 1 False True (progress w)\<rparr>)"
  by (simp add: translate_text_def dict_exists_def dict_get_def Let_def)

lemma translate_text_content:
  "\<not> blank t \<Longrightarrow> \<not> dict_exists t w \<Longrightarrow> p (exchanges w) t = Content c \<Longrightarrow>
   translate_text p t w =
     Return (strip c)
       (dict_set t (strip c)
         (w\<lparr>invoked := t # invoked w, progress := update 1 True False (progress w),
            exchanges := (t, Content c) # exchanges w\<rparr>))"
  by (simp add: translate_text_def dict_exists_def Let_def)

lemma translate_text_interrupt:
  "\<not> blank t \<Longrightarrow> \<not> dict_exists t w \<Longrightarrow> p (exchanges w) t = KeyboardInterrupt \<Longrightarrow>
   translate_text p t w =
     Exit 0
       (dict_save
         (w\<lparr>invoked := t # invoked w, progress := update 1 True False (progress w),
            exchanges := (t, KeyboardInterrupt) # exchanges w\<rparr>))"
  by (simp add: translate_text_def dict_exists_def Let_def)

lemma translate_text_failure:
  "\<not> blank t \<Longrightarrow> \<not> dict_exists t w \<Longrightarrow> p (exchanges w) t = r \<Longrightarrow>
   r \<in> {Timeout, RequestException, JSONDecodeError, OtherException} \<Longrightarrow>
   translate_text p t w =
     Return t
       (w\<lparr>invoked := t # invoked w, progress := update 1 True False (progress w),
          exchanges := (t, r) # exchanges w\<rparr>)"
  by (auto simp add: translate_text_def dict_exists_def Let_def)

lemma translate_text_cases:
  obtains (blank) "blank t"
  | (hit) "\<not> blank t" "dict_exists t w"
  | (content) c where "\<not> blank t" "\<not> dict_exists t w" "p (exchanges w) t = Content c"
  | (interrupt) "\<not> blank t" "\<not> dict_exists t w" "p (exchanges w) t = KeyboardInterrupt"
  | (failure) "\<not> blank t" "\<not> dict_exists t w"
      "p (exchanges w) t \<in> {Timeout, RequestException, JSONDecodeError, OtherException}"
  by (cases "p (exchanges w) t") auto

lemmas translate_text_paths = translate_text_blank translate_text_hit translate_text_content
  translate_text_interrupt translate_text_failure

lemma invoked_translate_text [simp]:
  "invoked (world_of (translate_text p t w)) = t # invoked w"
  by (rule translate_text_cases [where t = t and w = w and p = p])
    (simp_all add: translate_text_paths dict_set_def dict_save_def)

lemma current_translate_text [simp]:
  "current (progress (world_of (translate_text p t w))) =
     current (progress w) + (if blank t then 0 else 1)"
  by (rule translate_text_cases [where t = t and w = w and p = p])
    (simp_all add: translate_text_paths dict_set_def dict_save_def update_def)

subsection \<open>A walk is the sequence of calls on its leaves\<close>

lemma length_settings_leaves:
  "length (settings_leaves d) = count_translatable_items d"
  "length (settings_leaves_items items) = count_items items"
  "length (settings_leaves_elems elems) = count_elems elems"
  by (induction d and items and elems
      rule: count_translatable_items_count_items_count_elems.induct) auto

lemma length_contributions_leaves:
  "no_string_title_description d \<Longrightarrow>
     length (contributions_leaves d) = count_contributions_translatable_items d"
  "no_string_title_description_items items \<Longrightarrow>
     length (contributions_leaves_items items) = count_contributions_items items"
  "no_string_title_description_elems elems \<Longrightarrow>
     length (contributions_leaves_elems elems) = count_contributions_elems elems"
  by (induction d and items and elems
      rule: count_contributions_translatable_items_count_contributions_items_count_contributions_elems.induct)
    auto

lemma outcome_translate_leaf [simp]:
  "outcome (translate_leaf p v w) = outcome (translate_text p (str_of v) w)"
  by (simp add: translate_leaf_def)

lemma outcome_translate_all_single [simp]:
  "outcome (translate_all p [t] w) = outcome (translate_text p t w)"
  by (cases "translate_text p t w") simp_all

lemma outcome_translate_all_Cons:
  "outcome (translate_all p (t # ts) w) =
     and_then (outcome (translate_text p t w)) (\<lambda>u w1. outcome (translate_all p ts w1))"
  by (cases "translate_text p t w") simp_all

lemma outcome_translate_all_append:
  "outcome (translate_all p (xs @ ys) w) =
     and_then (outcome (translate_all p xs w)) (\<lambda>u w1. outcome (translate_all p ys w1))"
proof (induction xs arbitrary: w)
  case Nil
  show ?case by simp
next
  case (Cons t ts)
  show ?case
    by (cases "translate_text p t w") (simp_all add: outcome_translate_all_Cons Cons.IH)
qed

lemma translate_enum_as_calls:
  "outcome (translate_enum p xs w) =
     outcome (translate_all p (map str_of (filter isinstance_str xs)) w)"
proof (induction xs arbitrary: w)
  case Nil
  show ?case by simp
next
  case (Cons item rest)
  show ?case
  proof (cases "isinstance_str item")
    case True
    have "outcome (translate_enum p (item # rest) w) =
        and_then (outcome (translate_leaf p item w)) (\<lambda>u w1. outcome (translate_enum p rest w1))"
      using True by (simp add: outcome_and_then)
    then show ?thesis using True
      by (simp add: outcome_translate_all_Cons Cons.IH del: translate_all.simps)
  next
    case False
    then show ?thesis by (simp add: Cons.IH)
  qed
qed

lemma traverse_as_calls:
  "outcome (traverse_and_translate p d w) = outcome (translate_all p (settings_leaves d) w)"
  "outcome (traverse_items p items w) = outcome (translate_all p (settings_leaves_items items) w)"
  "outcome (traverse_elems p elems w) = outcome (translate_all p (settings_leaves_elems elems) w)"
proof (induction p d w and p items w and p elems w
    rule: traverse_and_translate_traverse_items_traverse_elems.induct)
  case (8 p key v rest w)
  let ?first = "if key \<in> set REPLACE_TARGET_KEYS \<and> isinstance_str v then
          translate_leaf p v w
        else if key = ''enumDescriptions'' \<and> isinstance_list v then
          and_then (translate_enum p (list_of_json v) w)
            (\<lambda>elems' w1. Return (JArray elems') w1)
        else traverse_and_translate p v w"
  let ?leaves = "if key \<in> set REPLACE_TARGET_KEYS \<and> isinstance_str v then [str_of v]
      else if key = ''enumDescriptions'' \<and> isinstance_list v
        then map str_of (filter isinstance_str (list_of_json v))
      else settings_leaves v"
  have first: "outcome ?first = outcome (translate_all p ?leaves w)"
  proof (cases "key \<in> set REPLACE_TARGET_KEYS \<and> isinstance_str v")
    case True
    then show ?thesis by simp
  next
    case leaf: False
    show ?thesis
    proof (cases "key = ''enumDescriptions'' \<and> isinstance_list v")
      case True
      with leaf show ?thesis by (auto simp add: translate_enum_as_calls)
    next
      case False
      with leaf "8.IH"(1) show ?thesis by auto
    qed
  qed
  have "outcome (traverse_items p ((key, v) # rest) w) =
      and_then (outcome ?first) (\<lambda>u w1. outcome (traverse_items p rest w1))"
    unfolding traverse_items.simps by (rule outcome_and_then) simp
  also have "\<dots> = and_then (outcome (translate_all p ?leaves w))
      (\<lambda>u w1. outcome (translate_all p (settings_leaves_items rest) w1))"
    by (simp only: first "8.IH"(2))
  also have "\<dots> = outcome (translate_all p (?leaves @ settings_leaves_items rest) w)"
    by (simp only: outcome_translate_all_append)
  finally show ?case by (simp only: settings_leaves_items.simps)
next
  case (10 p item rest w)
  have "outcome (traverse_elems p (item # rest) w) =
      and_then (outcome (traverse_and_translate p item w))
        (\<lambda>u w1. outcome (traverse_elems p rest w1))"
    unfolding traverse_elems.simps by (rule outcome_and_then) simp
  then show ?case by (simp add: "10.IH" outcome_translate_all_append)
qed simp_all

lemma translate_in_as_calls:
  "outcome (translate_in_object p d w) = outcome (translate_all p (contributions_leaves d) w)"
  "outcome (translate_in_items p items w) =
     outcome (translate_all p (contributions_leaves_items items) w)"
  "outcome (translate_in_elems p elems w) =
     outcome (translate_all p (contributions_leaves_elems elems) w)"
proof (induction p d w and p items w and p elems w
    rule: translate_in_object_translate_in_items_translate_in_elems.induct)
  case (8 p key v rest w)
  let ?first = "if key = ''label'' \<and> isinstance_str v then translate_leaf p v w
        else if key = ''name'' \<and> isinstance_str v then translate_leaf p v w
        else if key = ''contents'' \<and> isinstance_str v then translate_leaf p v w
        else if key \<in> set [''title'', ''description''] \<and> isinstance_str v
          then translate_leaf p v w
        else translate_in_object p v w"
  let ?leaves = "if key \<in> set [''label'', ''name'', ''contents'', ''title'', ''description'']
         \<and> isinstance_str v
      then [str_of v] else contributions_leaves v"
  have first: "outcome ?first = outcome (translate_all p ?leaves w)"
  proof (cases "key \<in> set [''label'', ''name'', ''contents'', ''title'', ''description'']
         \<and> isinstance_str v")
    case True
    then show ?thesis by auto
  next
    case False
    with "8.IH"(1) show ?thesis by auto
  qed
  have "outcome (translate_in_items p ((key, v) # rest) w) =
      and_then (outcome ?first) (\<lambda>u w1. outcome (translate_in_items p rest w1))"
    unfolding translate_in_items.simps by (rule outcome_and_then) simp
  also have "\<dots> = and_then (outcome (translate_all p ?leaves w))
      (\<lambda>u w1. outcome (translate_all p (contributions_leaves_items rest) w1))"
    by (simp only: first "8.IH"(2))
  also have "\<dots> = outcome (translate_all p (?leaves @ contributions_leaves_items rest) w)"
    by (simp only: outcome_translate_all_append)
  finally show ?case by (simp only: contributions_leaves_items.simps)
next
  case (10 p item rest w)
  have "outcome (translate_in_elems p (item # rest) w) =
      and_then (outcome (translate_in_object p item w))
        (\<lambda>u w1. outcome (translate_in_elems p rest w1))"
    unfolding translate_in_elems.simps by (rule outcome_and_then) simp
  then show ?case by (simp add: "10.IH" outcome_translate_all_append)
qed simp_all

lemma translate_all_trace:
  "translate_all p ts w = Return rs w' \<Longrightarrow>
     invoked w' = rev ts @ invoked w \<and>
     current (progress w') = current (progress w) + length (filter (\<lambda>t. \<not> blank t) ts)"
proof (induction ts arbitrary: w rs)
  case Nil
  then show ?case by simp
next
  case (Cons t ts)
  from Cons.prems obtain t' w1 rs' where
    1: "translate_text p t w = Return t' w1" and 2: "translate_all p ts w1 = Return rs' w'"
    by (cases "translate_text p t w"; cases "translate_all p ts (world_of (translate_text p t w))")
      simp_all
  have "invoked w1 = t # invoked w"
    using invoked_translate_text [of p t w] 1 by simp
  moreover have "current (progress w1) = current (progress w) + (if blank t then 0 else 1)"
    using current_translate_text [of p t w] 1 by simp
  ultimately show ?case using Cons.IH [OF 2] by simp
qed

lemma pass_trace:
  assumes same: "outcome r = outcome (translate_all p ts w)"
    and ret: "r = Return d' w'"
  shows "length (invoked w') = length (invoked w) + length ts \<and>
     current (progress w') =
       current (progress w) + length (filter (\<lambda>t. \<not> blank t) (take (length ts) (invoked w')))"
proof -
  from same_outcome_Return [OF same ret] obtain rs where "translate_all p ts w = Return rs w'" ..
  from translate_all_trace [OF this] show ?thesis by (simp add: rev_filter [symmetric])
qed

subsection \<open>Properties kept by every call\<close>

lemma translate_all_rel:
  assumes refl: "reflp R"
    and trans: "transp R"
    and step: "\<And>t w. R w (world_of (translate_text p t w))"
  shows "R w (world_of (translate_all p ts w))"
proof (induction ts arbitrary: w)
  case Nil
  show ?case by (simp add: reflpD [OF refl])
next
  case (Cons t ts)
  show ?case
  proof (cases "translate_text p t w")
    case (Return t' w1)
    have "R w w1" using step [of w t] Return by simp
    from transpD [OF trans this Cons.IH [of w1]] Return show ?thesis by simp
  next
    case (Exit c w1)
    then show ?thesis using step [of w t] by simp
  next
    case (Raise e w1)
    then show ?thesis using step [of w t] by simp
  qed
qed

lemma traverse_rel:
  assumes "reflp R" and "transp R"
    and "\<And>t w. R w (world_of (translate_text p t w))"
  shows "R w (world_of (traverse_and_translate p d w))"
  using translate_all_rel [OF assms, of w "settings_leaves d"]
  by (simp add: same_outcome_world [OF traverse_as_calls(1)])

lemma translate_in_rel:
  assumes "reflp R" and "transp R"
    and "\<And>t w. R w (world_of (translate_text p t w))"
  shows "R w (world_of (translate_in_object p d w))"
  using translate_all_rel [OF assms, of w "contributions_leaves d"]
  by (simp add: same_outcome_world [OF translate_in_as_calls(1)])

lemma dict_exists_iff: "dict_exists t w \<longleftrightarrow> map_of (dictionary w) t \<noteq> None"
  by (simp add: dict_exists_def map_of_eq_None_iff)

lemma dictionary_dict_set [simp]:
  "map_of (dictionary (dict_set k v w)) = (map_of (dictionary w))(k \<mapsto> v)"
  by (simp add: dict_set_def dict_save_def update_conv')

lemma dict_set_synced [simp]:
  "dictionary_file (dict_set k v w) = Some (dictionary (dict_set k v w))"
  by (simp add: dict_set_def dict_save_def)

lemma dict_save_synced [simp]: "dictionary_file (dict_save w) = Some (dictionary (dict_save w))"
  by (simp add: dict_save_def)

lemma dict_set_frame [simp]:
  "package_json (dict_set k v w) = package_json w"
  "contributions_json (dict_set k v w) = contributions_json w"
  "file_path (dict_set k v w) = file_path w"
  "progress (dict_set k v w) = progress w"
  "exchanges (dict_set k v w) = exchanges w"
  "invoked (dict_set k v w) = invoked w"
  by (simp_all add: dict_set_def dict_save_def)

lemma dict_save_frame [simp]:
  "package_json (dict_save w) = package_json w"
  "contributions_json (dict_save w) = contributions_json w"
  "file_path (dict_save w) = file_path w"
  "progress (dict_save w) = progress w"
  "exchanges (dict_save w) = exchanges w"
  "invoked (dict_save w) = invoked w"
  "dictionary (dict_save w) = dictionary w"
  by (simp_all add: dict_save_def)

lemma translate_text_frame [simp]:
  "package_json (world_of (translate_text p t w)) = package_json w"
  "contributions_json (world_of (translate_text p t w)) = contributions_json w"
  "file_path (world_of (translate_text p t w)) = file_path w"
  by (rule translate_text_cases [where t = t and w = w and p = p];
      simp add: translate_text_paths)+

lemma progress_translate_text:
  "progress (world_of (translate_text p t w)) =
     (if blank t then progress w
      else if dict_exists t w then update 1 False True (progress w)
      else update 1 True False (progress w))"
  by (rule translate_text_cases [where t = t and w = w and p = p])
    (simp_all add: translate_text_paths)

lemma translate_text_keeps_entries:
  assumes "map_of (dictionary w) k = Some v"
  shows "map_of (dictionary (world_of (translate_text p t w))) k = Some v"
proof (rule translate_text_cases [where t = t and w = w and p = p])
  fix c
  assume "\<not> blank t" and miss: "\<not> dict_exists t w" and "p (exchanges w) t = Content c"
  moreover from miss assms have "k \<noteq> t" by (auto simp add: dict_exists_iff)
  ultimately show ?thesis using assms by (simp add: translate_text_content)
qed (use assms in \<open>simp_all add: translate_text_paths\<close>)

lemma translate_text_keeps_synced:
  assumes "dictionary_file w = Some (dictionary w)"
  shows "dictionary_file (world_of (translate_text p t w)) =
    Some (dictionary (world_of (translate_text p t w)))"
  by (rule translate_text_cases [where t = t and w = w and p = p])
    (use assms in \<open>simp_all add: translate_text_paths\<close>)

lemma translate_text_returns:
  assumes "\<forall>h u. p h u \<noteq> KeyboardInterrupt"
  shows "\<exists>r w'. translate_text p t w = Return r w'"
  by (rule translate_text_cases [where t = t and w = w and p = p])
    (use assms in \<open>auto simp add: translate_text_paths\<close>)

lemma translate_all_returns:
  assumes "\<forall>h u. p h u \<noteq> KeyboardInterrupt"
  shows "\<exists>rs w'. translate_all p ts w = Return rs w'"
proof (induction ts arbitrary: w)
  case Nil
  show ?case by simp
next
  case (Cons t ts)
  from translate_text_returns [OF assms] obtain r w1 where "translate_text p t w = Return r w1"
    by blast
  moreover from Cons.IH obtain rs w2 where "translate_all p ts w1 = Return rs w2" by blast
  ultimately show ?case by simp
qed

lemma returns_of_same_outcome:
  assumes "outcome r = outcome r'" and "\<exists>y w'. r' = Return y w'"
  shows "\<exists>x w'. r = Return x w'"
  using assms by (cases r; cases r') auto

lemma translate_all_keeps_synced_entry:
  assumes "dictionary_file w = Some (dictionary w)" and "map_of (dictionary w) k = Some v"
  shows "dictionary_file (world_of (translate_all q ts w)) =
      Some (dictionary (world_of (translate_all q ts w)))
    \<and> map_of (dictionary (world_of (translate_all q ts w))) k = Some v"
proof -
  let ?R = "\<lambda>a b.
    (dictionary_file a = Some (dictionary a) \<and> map_of (dictionary a) k = Some v)
     \<longrightarrow> (dictionary_file b = Some (dictionary b) \<and> map_of (dictionary b) k = Some v)"
  have "?R w (world_of (translate_all q ts w))"
    by (rule translate_all_rel [where R = ?R])
      (auto simp add: reflp_def transp_def translate_text_keeps_entries
        translate_text_keeps_synced)
  with assms show ?thesis by simp
qed

lemma dict_init_Path:
  assumes "dictionary_file w = Some entries"
  shows "dict_init (PyPath name) w =
    Return () (w\<lparr>file_path := PyPath name, dictionary := entries\<rparr>)"
  using assms by (simp add: dict_init_def dict_load_def)

lemma translate_text_keeps_retained:
  assumes "retained w"
  shows "retained (world_of (translate_text p t w))"
proof (rule translate_text_cases [where t = t and w = w and p = p])
  fix c
  assume b: "\<not> blank t" and miss: "\<not> dict_exists t w" and c: "p (exchanges w) t = Content c"
  from miss have n: "map_of (dictionary w) t = None" by (simp add: dict_exists_iff)
  show ?thesis
    using assms n
    by (auto simp add: translate_text_content [where p = p, OF b miss c] retained_def)
next
  assume "\<not> blank t" "\<not> dict_exists t w" "p (exchanges w) t = KeyboardInterrupt"
  then show ?thesis using assms by (simp add: translate_text_interrupt retained_def)
next
  assume b: "\<not> blank t" and miss: "\<not> dict_exists t w"
    and f: "p (exchanges w) t \<in> {Timeout, RequestException, JSONDecodeError, OtherException}"
  have "translate_text p t w =
     Return t
       (w\<lparr>invoked := t # invoked w, progress := update 1 True False (progress w),
          exchanges := (t, p (exchanges w) t) # exchanges w\<rparr>)"
    using b miss f by (intro translate_text_failure) simp_all
  then show ?thesis using assms f by (auto simp add: retained_def)
qed (use assms in \<open>simp_all add: translate_text_paths retained_def\<close>)

lemma retained_frame:
  assumes "exchanges b = exchanges a" and "dictionary b = dictionary a" and "retained a"
  shows "retained b"
  using assms by (simp add: retained_def)

lemma translate_text_Exit:
  assumes "translate_text p t w = Exit c w'"
  shows "c = 0 \<and> dictionary_file w' = Some (dictionary w')"
proof (rule translate_text_cases [where t = t and w = w and p = p])
  assume b: "\<not> blank t" and miss: "\<not> dict_exists t w"
    and f: "p (exchanges w) t \<in> {Timeout, RequestException, JSONDecodeError, OtherException}"
  have "translate_text p t w =
     Return t
       (w\<lparr>invoked := t # invoked w, progress := update 1 True False (progress w),
          exchanges := (t, p (exchanges w) t) # exchanges w\<rparr>)"
    using b miss f by (intro translate_text_failure) simp_all
  with assms show ?thesis by simp
qed (use assms in \<open>auto simp add: translate_text_paths\<close>)

lemma translate_text_no_Raise: "translate_text p t w \<noteq> Raise e w'"
proof (rule translate_text_cases [where t = t and w = w and p = p])
  assume b: "\<not> blank t" and miss: "\<not> dict_exists t w"
    and f: "p (exchanges w) t \<in> {Timeout, RequestException, JSONDecodeError, OtherException}"
  have "translate_text p t w =
     Return t
       (w\<lparr>invoked := t # invoked w, progress := update 1 True False (progress w),
          exchanges := (t, p (exchanges w) t) # exchanges w\<rparr>)"
    using b miss f by (intro translate_text_failure) simp_all
  then show ?thesis by simp
qed (simp_all add: translate_text_paths)

lemma translate_all_ends:
  "translate_all p ts w = Exit c w' \<Longrightarrow> c = 0 \<and> dictionary_file w' = Some (dictionary w')"
  "translate_all p ts w \<noteq> Raise e w'"
proof (induction ts arbitrary: w)
  case Nil
  { case 1 then show ?case by simp }
  { case 2 show ?case by simp }
next
  case (Cons t ts)
  { case 1
    show ?case
    proof (cases "translate_text p t w")
      case (Return t' w1)
      with 1 have "translate_all p ts w1 = Exit c w'"
        by (cases "translate_all p ts w1") simp_all
      then show ?thesis by (rule Cons.IH(1))
    next
      case (Exit c1 w1)
      with 1 translate_text_Exit [OF Exit] show ?thesis by simp
    next
      case (Raise e1 w1)
      then show ?thesis by (simp add: translate_text_no_Raise)
    qed }
  { case 2
    show ?case
    proof (cases "translate_text p t w")
      case (Return t' w1)
      with Cons.IH(2) [of w1] show ?thesis
        by (cases "translate_all p ts w1") simp_all
    next
      case (Exit c1 w1)
      then show ?thesis by simp
    next
      case (Raise e1 w1)
      then show ?thesis by (simp add: translate_text_no_Raise)
    qed }
qed

lemma translate_all_world:
  "package_json (world_of (translate_all p ts w)) = package_json w
   \<and> contributions_json (world_of (translate_all p ts w)) = contributions_json w
   \<and> (retained w \<longrightarrow> retained (world_of (translate_all p ts w)))"
proof -
  let ?R = "\<lambda>a b. package_json b = package_json a \<and> contributions_json b = contributions_json a
    \<and> (retained a \<longrightarrow> retained b)"
  have "?R w (world_of (translate_all p ts w))"
    by (rule translate_all_rel [where R = ?R])
      (auto simp add: reflp_def transp_def translate_text_keeps_retained)
  then show ?thesis by simp
qed

lemma pass_world:
  assumes "outcome r = outcome (translate_all p ts w)"
  shows "package_json (world_of r) = package_json w
   \<and> contributions_json (world_of r) = contributions_json w
   \<and> (retained w \<longrightarrow> retained (world_of r))"
  using translate_all_world [of p ts w] by (simp add: same_outcome_world [OF assms])

lemma pass_ends:
  assumes "outcome r = outcome (translate_all p ts w)"
  shows "r = Exit c w' \<Longrightarrow> c = 0 \<and> dictionary_file w' = Some (dictionary w')"
    and "r \<noteq> Raise e w'"
proof -
  show "c = 0 \<and> dictionary_file w' = Some (dictionary w')" if "r = Exit c w'"
  proof -
    from assms that have "translate_all p ts w = Exit c w'"
      by (cases "translate_all p ts w") simp_all
    then show ?thesis by (rule translate_all_ends(1))
  qed
  show "r \<noteq> Raise e w'"
  proof
    assume "r = Raise e w'"
    with assms have "translate_all p ts w = Raise e w'"
      by (cases "translate_all p ts w") simp_all
    then show False by (simp add: translate_all_ends(2))
  qed
qed

lemmas settings_pass_world = pass_world [OF traverse_as_calls(1)]

lemmas settings_pass_ends = pass_ends [OF traverse_as_calls(1)]

lemmas contributions_pass_world = pass_world [OF translate_in_as_calls(1)]

lemmas contributions_pass_ends = pass_ends [OF translate_in_as_calls(1)]

lemma translate_contributions_file_Exit:
  assumes "translate_contributions_file p w = Exit c w'" and "retained w"
  shows "c = 0 \<and> dictionary_file w' = Some (dictionary w') \<and> retained w'
    \<and> package_json w' = package_json w \<and> contributions_json w' = contributions_json w"
proof -
  from assms(1) obtain data where
    d: "contributions_json w = Some data"
    and e: "translate_in_object p data
        (w\<lparr>progress := ProgressBar_init (count_contributions_translatable_items data)\<rparr>)
      = Exit c w'"
    (is "translate_in_object p data ?w1 = _")
    by (auto simp add: translate_contributions_file_def Let_def and_then_def
        split: option.splits if_splits result.splits)
  have "retained ?w1" by (rule retained_frame [OF _ _ assms(2)]) simp_all
  with contributions_pass_world [of p data ?w1] contributions_pass_ends(1) [OF e] e
  show ?thesis by simp
qed

subsection \<open>What the orchestrator leaves\<close>

lemma dict_init_world:
  "package_json (world_of (dict_init fp w)) = package_json w
   \<and> contributions_json (world_of (dict_init fp w)) = contributions_json w
   \<and> exchanges (world_of (dict_init fp w)) = exchanges w
   \<and> dictionary_file (world_of (dict_init fp w)) = dictionary_file w"
  by (simp add: dict_init_def dict_load_def split: pathlike.splits option.splits)

lemma dict_init_no_Exit: "dict_init fp w \<noteq> Exit c w'"
  by (simp add: dict_init_def dict_load_def split: pathlike.splits option.splits)

lemma translate_contributions_file_world:
  "package_json (world_of (translate_contributions_file p w)) = package_json w
   \<and> (contributions_json (world_of (translate_contributions_file p w)) = contributions_json w
      \<or> (\<exists>data w2 data' w3. contributions_json w = Some data
            \<and> translate_in_object p data w2 = Return data' w3
            \<and> contributions_json (world_of (translate_contributions_file p w)) = Some data'))"
proof (cases "contributions_json w")
  case None
  then show ?thesis by (simp add: translate_contributions_file_def)
next
  case (Some data)
  let ?w1 = "w\<lparr>progress := ProgressBar_init (count_contributions_translatable_items data)\<rparr>"
  show ?thesis
  proof (cases "count_contributions_translatable_items data = 0")
    case True
    with Some show ?thesis by (simp add: translate_contributions_file_def)
  next
    case False
    note pw = contributions_pass_world [of p data ?w1]
    show ?thesis
    proof (cases "translate_in_object p data ?w1")
      case (Return data' w3)
      with Some False pw show ?thesis
        by (auto simp add: translate_contributions_file_def Let_def)
    next
      case (Exit c w3)
      with Some False pw show ?thesis
        by (simp add: translate_contributions_file_def Let_def)
    next
      case (Raise e w3)
      with Some False pw show ?thesis
        by (simp add: translate_contributions_file_def Let_def)
    qed
  qed
qed

lemma main_finish_world:
  "(package_json (world_of (main_finish p lp data' w)) = package_json w
      \<or> package_json (world_of (main_finish p lp data' w)) = Some data')
   \<and> (contributions_json (world_of (main_finish p lp data' w)) = contributions_json w
      \<or> (\<exists>data w2 cdata' w3. contributions_json w = Some data
            \<and> translate_in_object p data w2 = Return cdata' w3
            \<and> contributions_json (world_of (main_finish p lp data' w)) = Some cdata'))"
proof (cases lp)
  case None
  then show ?thesis by (simp add: main_finish_def)
next
  case (Some pb)
  let ?w1 = "w\<lparr>package_json := Some data'\<rparr>"
  have eq: "world_of (main_finish p lp data' w) =
      (case translate_contributions_file p ?w1 of
         Return ok w2 \<Rightarrow> dict_save w2 | Exit c w2 \<Rightarrow> w2 | Raise e w2 \<Rightarrow> w2)"
    using Some by (cases "translate_contributions_file p ?w1") (simp_all add: main_finish_def)
  from translate_contributions_file_world [of p ?w1] show ?thesis
    unfolding eq by (cases "translate_contributions_file p ?w1") auto
qed

lemma main_with_documents:
  "(package_json (world_of (main_with fp p api_key w)) = package_json w
      \<or> (\<exists>u w1 data data' w3. dict_init fp w = Return u w1 \<and> package_json w = Some data
            \<and> traverse_and_translate p data
                 (w1\<lparr>progress := ProgressBar_init (count_translatable_items data)\<rparr>)
               = Return data' w3
            \<and> package_json (world_of (main_with fp p api_key w)) = Some data'))
   \<and> (contributions_json (world_of (main_with fp p api_key w)) = contributions_json w
      \<or> (\<exists>data w2 data' w3. contributions_json w = Some data
            \<and> translate_in_object p data w2 = Return data' w3
            \<and> contributions_json (world_of (main_with fp p api_key w)) = Some data'))"
  (is "?P (world_of (main_with fp p api_key w))")
proof (cases "dict_init fp w")
  case (Exit c w1)
  then show ?thesis by (simp add: dict_init_no_Exit)
next
  case (Raise e w1)
  with dict_init_world [of fp w] show ?thesis by (simp add: main_with_def)
next
  case (Return u w1)
  with dict_init_world [of fp w] have fr: "package_json w1 = package_json w"
    "contributions_json w1 = contributions_json w" by simp_all
  show ?thesis
  proof (cases "api_key = [] \<or> package_json w1 = None")
    case True
    with Return have "world_of (main_with fp p api_key w) = w1"
      by (auto simp add: main_with_def split: option.splits)
    with fr show ?thesis by simp
  next
    case False
    then obtain data where key: "api_key \<noteq> []" and data: "package_json w1 = Some data" by auto
    let ?w2 = "w1\<lparr>progress := ProgressBar_init (count_translatable_items data)\<rparr>"
    note pw = settings_pass_world [of p data ?w2]
    show ?thesis
    proof (cases "traverse_and_translate p data ?w2")
      case (Exit c3 w3)
      with Return key data have "world_of (main_with fp p api_key w) = w3"
        by (simp add: main_with_def Let_def)
      with pw Exit fr show ?thesis by simp
    next
      case (Raise e3 w3)
      with Return key data have "world_of (main_with fp p api_key w) = w3"
        by (simp add: main_with_def Let_def)
      with pw Raise fr show ?thesis by simp
    next
      case pass: (Return data' w3)
      with pw have w3: "package_json w3 = package_json w1"
        "contributions_json w3 = contributions_json w1"
        by simp_all
      from Return key data pass obtain lp where
        fin: "world_of (main_with fp p api_key w) = world_of (main_finish p lp data' w3)"
        by (cases "remaining_items (count_translatable_items data) w1 \<le> 0")
          (simp_all add: main_with_def Let_def)
      from main_finish_world [of p lp data' w3] Return data pass w3 fr
      show ?thesis unfolding fin by auto
    qed
  qed
qed

lemma main_with_Exit:
  assumes run: "main_with fp p api_key w = Exit c w'" and ex: "exchanges w = []"
  shows "contributions_json w' = contributions_json w
    \<and> (c = 0 \<longrightarrow> dictionary_file w' = Some (dictionary w') \<and> retained w')"
proof -
  from run obtain u w1 where init: "dict_init fp w = Return u w1"
    by (cases "dict_init fp w") (simp_all add: main_with_def dict_init_no_Exit)
  with dict_init_world [of fp w] have fr: "package_json w1 = package_json w"
    "contributions_json w1 = contributions_json w" "exchanges w1 = exchanges w"
    by simp_all
  from fr ex have r1: "retained w1" by (simp add: retained_def)
  show ?thesis
  proof (cases "api_key = [] \<or> package_json w1 = None")
    case True
    with run init have "w' = w1 \<and> c = 1"
      by (auto simp add: main_with_def split: option.splits if_splits)
    with fr show ?thesis by simp
  next
    case False
    then obtain data where key: "api_key \<noteq> []" and data: "package_json w1 = Some data" by auto
    let ?w2 = "w1\<lparr>progress := ProgressBar_init (count_translatable_items data)\<rparr>"
    have r2: "retained ?w2" by (rule retained_frame [OF _ _ r1]) simp_all
    note pw = settings_pass_world [of p data ?w2]
    show ?thesis
    proof (cases "traverse_and_translate p data ?w2")
      case (Exit c3 w3)
      with run init key data have "c = c3" "w' = w3"
        by (auto simp add: main_with_def Let_def split: if_splits)
      with settings_pass_ends(1) [OF Exit] pw r2 Exit fr show ?thesis by simp
    next
      case (Raise e3 w3)
      with settings_pass_ends(2) [of p data ?w2 e3 w3] show ?thesis by simp
    next
      case (Return data' w3)
      with pw r2 have w3: "contributions_json w3 = contributions_json w1" "retained w3"
        by simp_all
      let ?w4 = "w3\<lparr>package_json := Some data'\<rparr>"
      have r4: "retained ?w4" by (rule retained_frame [OF _ _ w3(2)]) simp_all
      from run init key data Return obtain lp where
        fin: "main_finish p lp data' w3 = Exit c w'"
        by (auto simp add: main_with_def Let_def split: if_splits)
      then have "translate_contributions_file p ?w4 = Exit c w'"
        by (cases "translate_contributions_file p ?w4")
          (auto simp add: main_finish_def split: option.splits)
      from translate_contributions_file_Exit [OF this r4] w3 fr show ?thesis by simp
    qed
  qed
qed

subsection \<open>The tree a pass returns\<close>

lemma returns_Return [simp]: "returns J (Return x w) y \<longleftrightarrow> x = y \<and> J w"
  by (auto simp add: returns_def)

lemma returns_and_then:
  assumes "returns J r a"
    and "\<And>w1. J w1 \<Longrightarrow> returns J (f a w1) b"
  shows "returns J (and_then r f) b"
  using assms by (auto simp add: returns_def)

lemma consistent_start: "consistent (map_of (dictionary w)) reply w"
  by (simp add: consistent_def)

lemma answers_Nil [simp]: "answers p reply cache []"
  by (simp add: answers_def)

lemma answers_append [simp]:
  "answers p reply cache (xs @ ys) \<longleftrightarrow> answers p reply cache xs \<and> answers p reply cache ys"
  by (simp add: answers_def)

lemma answers_Cons:
  "answers p reply cache (t # ts) \<longleftrightarrow> answers p reply cache [t] \<and> answers p reply cache ts"
  by (simp add: answers_def)

lemma answers_all:
  assumes "\<forall>h u. p h u = reply u" and "\<forall>u. reply u \<noteq> KeyboardInterrupt"
  shows "answers p reply cache ts"
  using assms by (simp add: answers_def list_all_iff)

lemma translate_text_rendering:
  assumes a: "answers p reply cache [t]"
    and J: "consistent cache reply w"
  shows "returns (consistent cache reply) (translate_text p t w) (rendering cache reply t)"
proof (rule translate_text_cases [where t = t and w = w and p = p])
  assume "blank t"
  then show ?thesis using J
    by (simp add: translate_text_blank rendering_def consistent_def)
next
  assume b: "\<not> blank t" and hit: "dict_exists t w"
  from hit obtain r where r: "map_of (dictionary w) t = Some r"
    by (auto simp add: dict_exists_iff)
  from J [unfolded consistent_def, rule_format, of t] r
  consider "cache t = Some r" | c where "cache t = None" "reply t = Content c" "r = strip c"
    by auto
  then have "rendering cache reply t = r"
    using b by cases (simp_all add: rendering_def)
  then show ?thesis using b hit J r
    by (simp add: translate_text_hit dict_get_def consistent_def)
next
  assume b: "\<not> blank t" and miss: "\<not> dict_exists t w"
  from miss have n: "map_of (dictionary w) t = None" by (simp add: dict_exists_iff)
  from J [unfolded consistent_def, rule_format, of t] n have cn: "cache t = None" by auto
  from a b cn have st: "\<And>h. p h t = reply t" and ni: "reply t \<noteq> KeyboardInterrupt"
    by (simp_all add: answers_def)
  { fix c
    assume c: "p (exchanges w) t = Content c"
    from c st have rc: "reply t = Content c" by simp
    have "rendering cache reply t = strip c"
      using b cn rc by (simp add: rendering_def)
    moreover have "consistent cache reply (dict_set t (strip c)
           (w\<lparr>invoked := t # invoked w, progress := update 1 True False (progress w),
              exchanges := (t, Content c) # exchanges w\<rparr>))"
      unfolding consistent_def
    proof
      fix u
      show "map_of (dictionary (dict_set t (strip c)
           (w\<lparr>invoked := t # invoked w, progress := update 1 True False (progress w),
              exchanges := (t, Content c) # exchanges w\<rparr>))) u = cache u \<or>
        (cache u = None \<and> (\<exists>ca. reply u = Content ca \<and> map_of (dictionary (dict_set t (strip c)
           (w\<lparr>invoked := t # invoked w, progress := update 1 True False (progress w),
              exchanges := (t, Content c) # exchanges w\<rparr>))) u = Some (strip ca)))"
        using J [unfolded consistent_def, rule_format, of u] cn rc by (cases "u = t") auto
    qed
    ultimately show ?thesis using b miss c by (simp add: translate_text_content) }
  { assume "p (exchanges w) t = KeyboardInterrupt"
    with st ni show ?thesis by simp }
  { assume f: "p (exchanges w) t \<in> {Timeout, RequestException, JSONDecodeError, OtherException}"
    with st have "reply t \<in> {Timeout, RequestException, JSONDecodeError, OtherException}" by simp
    then have "rendering cache reply t = t"
      using b cn by (auto simp add: rendering_def)
    moreover have "translate_text p t w =
       Return t
         (w\<lparr>invoked := t # invoked w, progress := update 1 True False (progress w),
            exchanges := (t, p (exchanges w) t) # exchanges w\<rparr>)"
      using b miss f by (intro translate_text_failure) simp_all
    ultimately show ?thesis using J by (simp add: consistent_def) }
qed

lemma translate_leaf_rendering:
  assumes "answers p reply cache [str_of v]" and "consistent cache reply w"
  shows "returns (consistent cache reply) (translate_leaf p v w)
    (JString (rendering cache reply (str_of v)))"
  unfolding translate_leaf_def
  by (rule returns_and_then [OF translate_text_rendering [OF assms]]) simp

lemma translate_enum_rendering:
  "answers p reply cache (map str_of (filter isinstance_str xs)) \<Longrightarrow>
   consistent cache reply w \<Longrightarrow>
    returns (consistent cache reply) (translate_enum p xs w)
      (map (\<lambda>item. if isinstance_str item then JString (rendering cache reply (str_of item))
                    else item) xs)"
proof (induction xs arbitrary: w)
  case Nil
  then show ?case by simp
next
  case (Cons item rest)
  let ?g = "\<lambda>item. if isinstance_str item then JString (rendering cache reply (str_of item)) else item"
  from Cons.prems(1) have a: "isinstance_str item \<Longrightarrow> answers p reply cache [str_of item]"
    and ar: "answers p reply cache (map str_of (filter isinstance_str rest))"
    by (auto simp add: answers_def split: if_splits)
  have first: "returns (consistent cache reply)
      (if isinstance_str item then translate_leaf p item w else Return item w) (?g item)"
    using translate_leaf_rendering [OF a Cons.prems(2)] Cons.prems(2) by simp
  show ?case
    unfolding translate_enum.simps list.map
    by (rule returns_and_then [OF first], rule returns_and_then [OF Cons.IH [OF ar]]) simp_all
qed

lemma traverse_rendering:
  "answers p reply cache (settings_leaves d) \<Longrightarrow> consistent cache reply w \<Longrightarrow>
      returns (consistent cache reply) (traverse_and_translate p d w)
        (translated_settings (rendering cache reply) d)"
  "answers p reply cache (settings_leaves_items items) \<Longrightarrow> consistent cache reply w \<Longrightarrow>
      returns (consistent cache reply) (traverse_items p items w)
        (translated_items (rendering cache reply) items)"
  "answers p reply cache (settings_leaves_elems elems) \<Longrightarrow> consistent cache reply w \<Longrightarrow>
      returns (consistent cache reply) (traverse_elems p elems w)
        (translated_elems (rendering cache reply) elems)"
proof (induction p d w and p items w and p elems w
    rule: traverse_and_translate_traverse_items_traverse_elems.induct)
  case (1 p items w)
  from "1.prems" have "answers p reply cache (settings_leaves_items items)" by simp
  from "1.IH" [OF this "1.prems"(2)] show ?case
    unfolding traverse_and_translate.simps translated_settings.simps
    by (rule returns_and_then) simp
next
  case (2 p elems w)
  from "2.prems" have "answers p reply cache (settings_leaves_elems elems)" by simp
  from "2.IH" [OF this "2.prems"(2)] show ?case
    unfolding traverse_and_translate.simps translated_settings.simps
    by (rule returns_and_then) simp
next
  case (8 p key v rest w)
  let ?g = "rendering cache reply"
  let ?first = "if key \<in> set REPLACE_TARGET_KEYS \<and> isinstance_str v then
          translate_leaf p v w
        else if key = ''enumDescriptions'' \<and> isinstance_list v then
          and_then (translate_enum p (list_of_json v) w)
            (\<lambda>elems' w1. Return (JArray elems') w1)
        else traverse_and_translate p v w"
  let ?replaced = "if key \<in> set REPLACE_TARGET_KEYS \<and> isinstance_str v then JString (?g (str_of v))
      else if key = ''enumDescriptions'' \<and> isinstance_list v then
        JArray (map (\<lambda>item. if isinstance_str item then JString (?g (str_of item)) else item)
                  (list_of_json v))
      else translated_settings ?g v"
  let ?leaves = "if key \<in> set REPLACE_TARGET_KEYS \<and> isinstance_str v then [str_of v]
      else if key = ''enumDescriptions'' \<and> isinstance_list v
        then map str_of (filter isinstance_str (list_of_json v))
      else settings_leaves v"
  from "8.prems"(1) have af: "answers p reply cache ?leaves"
    and ar: "answers p reply cache (settings_leaves_items rest)"
    by simp_all
  have J: "consistent cache reply w" by (rule "8.prems"(2))
  have first: "returns (consistent cache reply) ?first ?replaced"
  proof (cases "key \<in> set REPLACE_TARGET_KEYS \<and> isinstance_str v")
    case True
    with af have "answers p reply cache [str_of v]" by simp
    from translate_leaf_rendering [OF this J] True show ?thesis by simp
  next
    case leaf: False
    show ?thesis
    proof (cases "key = ''enumDescriptions'' \<and> isinstance_list v")
      case True
      with leaf af have "answers p reply cache (map str_of (filter isinstance_str (list_of_json v)))"
        by auto
      from translate_enum_rendering [OF this J]
      have "returns (consistent cache reply)
          (and_then (translate_enum p (list_of_json v) w) (\<lambda>elems' w1. Return (JArray elems') w1))
          (JArray (map (\<lambda>item. if isinstance_str item then JString (?g (str_of item)) else item)
                  (list_of_json v)))"
        by (rule returns_and_then) simp
      with leaf True show ?thesis by auto
    next
      case False
      with leaf af have "answers p reply cache (settings_leaves v)" by auto
      with leaf False "8.IH"(1) [OF _ _ _ J] show ?thesis by auto
    qed
  qed
  show ?case
    unfolding traverse_items.simps translated_items.simps
    by (rule returns_and_then [OF first], rule returns_and_then [OF "8.IH"(2) [OF ar]]) simp_all
next
  case (10 p item rest w)
  from "10.prems"(1) have ai: "answers p reply cache (settings_leaves item)"
    and ar: "answers p reply cache (settings_leaves_elems rest)"
    by simp_all
  show ?case
    unfolding traverse_elems.simps translated_elems.simps
    by (rule returns_and_then [OF "10.IH"(1) [OF ai "10.prems"(2)]],
        rule returns_and_then [OF "10.IH"(2) [OF ar]]) simp_all
qed simp_all

lemma translated_settings_cong:
  "(\<forall>t \<in> set (settings_leaves d). g t = g' t) \<Longrightarrow>
     translated_settings g d = translated_settings g' d"
  "(\<forall>t \<in> set (settings_leaves_items items). g t = g' t) \<Longrightarrow>
     translated_items g items = translated_items g' items"
  "(\<forall>t \<in> set (settings_leaves_elems elems). g t = g' t) \<Longrightarrow>
     translated_elems g elems = translated_elems g' elems"
  by (induction d and items and elems
      rule: count_translatable_items_count_items_count_elems.induct) auto

lemma translate_all_warm:
  "list_all (\<lambda>t. blank t \<or> dict_exists t w) ts \<Longrightarrow>
     \<exists>rs w'. translate_all p ts w = Return rs w' \<and> exchanges w' = exchanges w
       \<and> dictionary w' = dictionary w \<and> dictionary_file w' = dictionary_file w"
proof (induction ts arbitrary: w)
  case Nil
  show ?case by simp
next
  case (Cons t ts)
  from Cons.prems have t: "blank t \<or> dict_exists t w"
    and ts: "list_all (\<lambda>t. blank t \<or> dict_exists t w) ts"
    by simp_all
  from t obtain r w1 where 1: "translate_text p t w = Return r w1"
    and 2: "exchanges w1 = exchanges w" "dictionary w1 = dictionary w"
      "dictionary_file w1 = dictionary_file w"
    by (cases "blank t") (auto simp add: translate_text_blank translate_text_hit)
  from ts 2 have "list_all (\<lambda>t. blank t \<or> dict_exists t w1) ts"
    by (simp add: dict_exists_def)
  from Cons.IH [OF this] obtain rs w' where "translate_all p ts w1 = Return rs w'"
    "exchanges w' = exchanges w1" "dictionary w' = dictionary w1"
    "dictionary_file w' = dictionary_file w1"
    by blast
  with 1 2 show ?case by simp
qed

lemma warm_pass_rendering:
  assumes warm: "list_all (\<lambda>t. blank t \<or> dict_exists t w) (settings_leaves d)"
  shows "\<exists>w'. traverse_and_translate p d w =
      Return (translated_settings (from_cache (map_of (dictionary w))) d) w'
    \<and> exchanges w' = exchanges w \<and> dictionary w' = dictionary w
    \<and> dictionary_file w' = dictionary_file w"
proof -
  let ?cache = "map_of (dictionary w)"
  let ?reply = "\<lambda>u::string. Timeout"
  have "answers p ?reply ?cache (settings_leaves d)"
    using warm by (auto simp add: answers_def list_all_iff dict_exists_iff)
  from traverse_rendering(1) [OF this consistent_start]
  obtain w' where r: "traverse_and_translate p d w =
      Return (translated_settings (rendering ?cache ?reply) d) w'"
    by (auto simp add: returns_def)
  have "translated_settings (rendering ?cache ?reply) d =
      translated_settings (from_cache ?cache) d"
    by (rule translated_settings_cong(1))
      (simp add: rendering_def from_cache_def split: option.splits)
  with r have r': "traverse_and_translate p d w =
      Return (translated_settings (from_cache ?cache) d) w'" by simp
  from translate_all_warm [OF warm, of p] obtain rs w'' where
    c: "translate_all p (settings_leaves d) w = Return rs w''" and
    f: "exchanges w'' = exchanges w" "dictionary w'' = dictionary w"
      "dictionary_file w'' = dictionary_file w"
    by blast
  from same_outcome_world [OF traverse_as_calls(1), of p d w] r' c have "w' = w''" by simp
  with r' f show ?thesis by simp
qed

subsection \<open>The tree a pass returns, whatever the provider\<close>

text \<open>
  A walk is the sequence of \<open>translate_text\<close> calls on its leaves, and the tree it returns
  is the tree it was given with the strings those calls return at the places of the
  leaves.
\<close>

lemma and_then_assoc:
  "and_then (and_then r f) g = and_then r (\<lambda>x w. and_then (f x w) g)"
  by (cases r) simp_all

lemma length_translate_all:
  "translate_all p ts w = Return rs w' \<Longrightarrow> length rs = length ts"
proof (induction ts arbitrary: w rs)
  case Nil
  then show ?case by simp
next
  case (Cons t ts)
  from Cons.prems obtain t' w1 rs' where
    1: "translate_text p t w = Return t' w1" and 2: "translate_all p ts w1 = Return rs' w'"
    and 3: "rs = t' # rs'"
    by (cases "translate_text p t w"; cases "translate_all p ts (world_of (translate_text p t w))")
      auto
  from Cons.IH [OF 2] 3 show ?case by simp
qed

lemma translate_all_append:
  "translate_all p (xs @ ys) w =
     and_then (translate_all p xs w)
       (\<lambda>rs1 w1. and_then (translate_all p ys w1) (\<lambda>rs2 w2. Return (rs1 @ rs2) w2))"
proof (induction xs arbitrary: w)
  case Nil
  show ?case by (cases "translate_all p ys w") simp_all
next
  case (Cons t ts)
  show ?case
    by (simp add: Cons.IH and_then_assoc)
qed

lemma split_results:
  "and_then (translate_all p (xs @ ys) w)
       (\<lambda>rs w'. Return (F (take (length xs) rs) (drop (length xs) rs)) w') =
     and_then (translate_all p xs w)
       (\<lambda>rs1 w1. and_then (translate_all p ys w1) (\<lambda>rs2 w2. Return (F rs1 rs2) w2))"
proof (cases "translate_all p xs w")
  case (Return rs1 w1)
  from length_translate_all [OF this] have "length rs1 = length xs" .
  with Return show ?thesis
    by (cases "translate_all p ys w1") (simp_all add: translate_all_append)
qed (simp_all add: translate_all_append)

lemma translate_enum_replaces:
  "translate_enum p xs w =
     and_then (translate_all p (map str_of (filter isinstance_str xs)) w)
       (\<lambda>rs w'. Return (replaced_enum xs rs) w')"
proof (induction xs arbitrary: w)
  case Nil
  show ?case by simp
next
  case (Cons item rest)
  show ?case
    by (simp add: Cons.IH and_then_assoc translate_leaf_def)
qed


lemma traverse_replaces:
  "traverse_and_translate p d w =
     and_then (translate_all p (settings_leaves d) w)
       (\<lambda>rs w'. Return (replaced_settings d rs) w')"
  "traverse_items p items w =
     and_then (translate_all p (settings_leaves_items items) w)
       (\<lambda>rs w'. Return (replaced_items items rs) w')"
  "traverse_elems p elems w =
     and_then (translate_all p (settings_leaves_elems elems) w)
       (\<lambda>rs w'. Return (replaced_elems elems rs) w')"
proof (induction p d w and p items w and p elems w
    rule: traverse_and_translate_traverse_items_traverse_elems.induct)
  case (1 p items w)
  then show ?case by (simp add: and_then_assoc)
next
  case (2 p elems w)
  then show ?case by (simp add: and_then_assoc)
next
  case (8 p key v rest w)
  let ?first = "if key \<in> set REPLACE_TARGET_KEYS \<and> isinstance_str v then
          translate_leaf p v w
        else if key = ''enumDescriptions'' \<and> isinstance_list v then
          and_then (translate_enum p (list_of_json v) w)
            (\<lambda>elems' w1. Return (JArray elems') w1)
        else traverse_and_translate p v w"
  let ?leaves = "if key \<in> set REPLACE_TARGET_KEYS \<and> isinstance_str v then [str_of v]
      else if key = ''enumDescriptions'' \<and> isinstance_list v
        then map str_of (filter isinstance_str (list_of_json v))
      else settings_leaves v"
  let ?part = "\<lambda>rs. if key \<in> set REPLACE_TARGET_KEYS \<and> isinstance_str v then JString (hd rs)
      else if key = ''enumDescriptions'' \<and> isinstance_list v
        then JArray (replaced_enum (list_of_json v) rs)
      else replaced_settings v rs"
  have n: "settings_leaves_items [(key, v)] = ?leaves" by simp
  have first: "?first = and_then (translate_all p ?leaves w) (\<lambda>rs w'. Return (?part rs) w')"
  proof (cases "key \<in> set REPLACE_TARGET_KEYS \<and> isinstance_str v")
    case True
    then show ?thesis
      by (cases "translate_text p (str_of v) w") (simp_all add: translate_leaf_def)
  next
    case leaf: False
    show ?thesis
    proof (cases "key = ''enumDescriptions'' \<and> isinstance_list v")
      case True
      with leaf show ?thesis by (auto simp add: translate_enum_replaces and_then_assoc)
    next
      case False
      with leaf "8.IH"(1) show ?thesis by auto
    qed
  qed
  have part: "(key, ?part (take (length ?leaves) rs)) # replaced_items rest (drop (length ?leaves) rs)
      = replaced_items ((key, v) # rest) rs" for rs
    unfolding replaced_items.simps n by (cases rs) auto
  have "traverse_items p ((key, v) # rest) w =
      and_then ?first (\<lambda>v' w1. and_then (traverse_items p rest w1)
         (\<lambda>rest' w2. Return ((key, v') # rest') w2))"
    by (simp only: traverse_items.simps)
  also have "\<dots> = and_then (translate_all p ?leaves w)
      (\<lambda>rs1 w1. and_then (translate_all p (settings_leaves_items rest) w1)
         (\<lambda>rs2 w2. Return ((key, ?part rs1) # replaced_items rest rs2) w2))"
    by (simp only: first "8.IH"(2) and_then_assoc and_then_Return)
  also have "\<dots> = and_then (translate_all p (?leaves @ settings_leaves_items rest) w)
      (\<lambda>rs w'. Return ((key, ?part (take (length ?leaves) rs))
          # replaced_items rest (drop (length ?leaves) rs)) w')"
    by (rule split_results [symmetric])
  finally show ?case by (simp only: part settings_leaves_items.simps)
next
  case (10 p item rest w)
  have "traverse_elems p (item # rest) w =
      and_then (translate_all p (settings_leaves item) w)
      (\<lambda>rs1 w1. and_then (translate_all p (settings_leaves_elems rest) w1)
         (\<lambda>rs2 w2. Return (replaced_settings item rs1 # replaced_elems rest rs2) w2))"
    by (simp only: traverse_elems.simps "10.IH" and_then_assoc and_then_Return)
  also have "\<dots> = and_then (translate_all p (settings_leaves item @ settings_leaves_elems rest) w)
      (\<lambda>rs w'. Return (replaced_settings item (take (length (settings_leaves item)) rs)
          # replaced_elems rest (drop (length (settings_leaves item)) rs)) w')"
    by (rule split_results [symmetric])
  finally show ?case by simp
qed simp_all

lemma translate_in_replaces:
  "translate_in_object p d w =
     and_then (translate_all p (contributions_leaves d) w)
       (\<lambda>rs w'. Return (replaced_contributions d rs) w')"
  "translate_in_items p items w =
     and_then (translate_all p (contributions_leaves_items items) w)
       (\<lambda>rs w'. Return (replaced_contributions_items items rs) w')"
  "translate_in_elems p elems w =
     and_then (translate_all p (contributions_leaves_elems elems) w)
       (\<lambda>rs w'. Return (replaced_contributions_elems elems rs) w')"
proof (induction p d w and p items w and p elems w
    rule: translate_in_object_translate_in_items_translate_in_elems.induct)
  case (1 p items w)
  then show ?case by (simp add: and_then_assoc)
next
  case (2 p elems w)
  then show ?case by (simp add: and_then_assoc)
next
  case (8 p key v rest w)
  let ?first = "if key = ''label'' \<and> isinstance_str v then translate_leaf p v w
        else if key = ''name'' \<and> isinstance_str v then translate_leaf p v w
        else if key = ''contents'' \<and> isinstance_str v then translate_leaf p v w
        else if key \<in> set [''title'', ''description''] \<and> isinstance_str v
          then translate_leaf p v w
        else translate_in_object p v w"
  let ?leaves = "if key \<in> set [''label'', ''name'', ''contents'', ''title'', ''description'']
         \<and> isinstance_str v
      then [str_of v] else contributions_leaves v"
  let ?part = "\<lambda>rs. if key \<in> set [''label'', ''name'', ''contents'', ''title'', ''description'']
         \<and> isinstance_str v
      then JString (hd rs) else replaced_contributions v rs"
  have n: "contributions_leaves_items [(key, v)] = ?leaves" by simp
  have first: "?first = and_then (translate_all p ?leaves w) (\<lambda>rs w'. Return (?part rs) w')"
  proof (cases "key \<in> set [''label'', ''name'', ''contents'', ''title'', ''description'']
         \<and> isinstance_str v")
    case True
    then show ?thesis
      by (cases "translate_text p (str_of v) w") (auto simp add: translate_leaf_def)
  next
    case False
    with "8.IH"(1) show ?thesis by auto
  qed
  have part: "(key, ?part (take (length ?leaves) rs))
        # replaced_contributions_items rest (drop (length ?leaves) rs)
      = replaced_contributions_items ((key, v) # rest) rs" for rs
    unfolding replaced_contributions_items.simps n by (cases rs) auto
  have "translate_in_items p ((key, v) # rest) w =
      and_then ?first (\<lambda>v' w1. and_then (translate_in_items p rest w1)
         (\<lambda>rest' w2. Return ((key, v') # rest') w2))"
    by (simp only: translate_in_items.simps)
  also have "\<dots> = and_then (translate_all p ?leaves w)
      (\<lambda>rs1 w1. and_then (translate_all p (contributions_leaves_items rest) w1)
         (\<lambda>rs2 w2. Return ((key, ?part rs1) # replaced_contributions_items rest rs2) w2))"
    by (simp only: first "8.IH"(2) and_then_assoc and_then_Return)
  also have "\<dots> = and_then (translate_all p (?leaves @ contributions_leaves_items rest) w)
      (\<lambda>rs w'. Return ((key, ?part (take (length ?leaves) rs))
          # replaced_contributions_items rest (drop (length ?leaves) rs)) w')"
    by (rule split_results [symmetric])
  finally show ?case by (simp only: part contributions_leaves_items.simps)
next
  case (10 p item rest w)
  have "translate_in_elems p (item # rest) w =
      and_then (translate_all p (contributions_leaves item) w)
      (\<lambda>rs1 w1. and_then (translate_all p (contributions_leaves_elems rest) w1)
         (\<lambda>rs2 w2. Return (replaced_contributions item rs1 # replaced_contributions_elems rest rs2) w2))"
    by (simp only: translate_in_elems.simps "10.IH" and_then_assoc and_then_Return)
  also have "\<dots> = and_then (translate_all p (contributions_leaves item @ contributions_leaves_elems rest) w)
      (\<lambda>rs w'. Return (replaced_contributions item (take (length (contributions_leaves item)) rs)
          # replaced_contributions_elems rest (drop (length (contributions_leaves item)) rs)) w')"
    by (rule split_results [symmetric])
  finally show ?case by simp
qed simp_all

text \<open>
  Replacing the leaves by themselves changes nothing, and the leaves of the tree with
  the leaves replaced are the strings put there: \<open>replaced_settings\<close> changes the
  selected places and nothing else.
\<close>

lemma replaced_enum_map:
  "replaced_enum xs (map g (map str_of (filter isinstance_str xs))) =
     map (\<lambda>item. if isinstance_str item then JString (g (str_of item)) else item) xs"
  by (induction xs) simp_all

lemma replaced_enum_map':
  "replaced_enum xs (map (g \<circ> str_of) (filter isinstance_str xs)) =
     map (\<lambda>item. if isinstance_str item then JString (g (str_of item)) else item) xs"
  using replaced_enum_map [of xs g] by simp

lemma JArray_list_of_json: "isinstance_list v \<Longrightarrow> JArray (list_of_json v) = v"
  by (cases v) simp_all

lemma replaced_map:
  "replaced_settings d (map g (settings_leaves d)) = translated_settings g d"
  "replaced_items items (map g (settings_leaves_items items)) = translated_items g items"
  "replaced_elems elems (map g (settings_leaves_elems elems)) = translated_elems g elems"
  by (induction d and items and elems
      rule: settings_leaves_settings_leaves_items_settings_leaves_elems.induct)
    (auto simp add: replaced_enum_map')

lemma str_of_JString: "isinstance_str v \<Longrightarrow> JString (str_of v) = v"
  by (cases v) simp_all

lemma replaced_enum_same:
  "replaced_enum xs (map str_of (filter isinstance_str xs)) = xs"
  by (induction xs) (simp_all add: str_of_JString)

lemma replaced_same:
  "replaced_settings d (settings_leaves d) = d"
  "replaced_items items (settings_leaves_items items) = items"
  "replaced_elems elems (settings_leaves_elems elems) = elems"
  by (induction d and items and elems
      rule: settings_leaves_settings_leaves_items_settings_leaves_elems.induct)
    (auto simp add: replaced_enum_same str_of_JString JArray_list_of_json)

lemma replaced_kind [simp]:
  "isinstance_str (replaced_settings d rs) = isinstance_str d"
  "isinstance_list (replaced_settings d rs) = isinstance_list d"
  by (cases d; simp)+

lemma leaves_replaced_enum:
  "length rs = length (filter isinstance_str xs) \<Longrightarrow>
     map str_of (filter isinstance_str (replaced_enum xs rs)) = rs"
proof (induction xs arbitrary: rs)
  case Nil
  then show ?case by simp
next
  case (Cons x xs)
  then show ?case by (cases rs) auto
qed

lemma leaves_replaced:
  "length rs = length (settings_leaves d) \<Longrightarrow> settings_leaves (replaced_settings d rs) = rs"
  "length rs = length (settings_leaves_items items) \<Longrightarrow>
     settings_leaves_items (replaced_items items rs) = rs"
  "length rs = length (settings_leaves_elems elems) \<Longrightarrow>
     settings_leaves_elems (replaced_elems elems rs) = rs"
proof (induction d rs and items rs and elems rs
      rule: replaced_settings_replaced_items_replaced_elems.induct)
  case (8 key v rest rs)
  let ?n = "length (settings_leaves_items [(key, v)])"
  from "8.prems" have len: "length (take ?n rs) = ?n" "length (drop ?n rs) = length (settings_leaves_items rest)"
    by auto
  have rest: "settings_leaves_items (replaced_items rest (drop ?n rs)) = drop ?n rs"
    using "8.IH"(2) len by simp
  show ?case
  proof (cases "key \<in> set REPLACE_TARGET_KEYS \<and> isinstance_str v")
    case True
    with "8.prems" rest show ?thesis by (cases rs) auto
  next
    case leaf: False
    show ?thesis
    proof (cases "key = ''enumDescriptions'' \<and> isinstance_list v")
      case True
      with leaf len have "map str_of (filter isinstance_str (replaced_enum (list_of_json v) (take ?n rs)))
          = take ?n rs"
        by (intro leaves_replaced_enum) auto
      with True leaf rest show ?thesis
        by (auto simp add: REPLACE_TARGET_KEYS_def)
    next
      case False
      with leaf len "8.IH"(1) have "settings_leaves (replaced_settings v (take ?n rs)) = take ?n rs"
        by auto
      with False leaf rest show ?thesis by auto
    qed
  qed
next
  case (10 item rest rs)
  let ?n = "length (settings_leaves item)"
  from "10.prems" have "length (take ?n rs) = ?n" "length (drop ?n rs) = length (settings_leaves_elems rest)"
    by auto
  with "10.IH" show ?case by simp
qed simp_all

text \<open>What a pass does with each of its leaves.\<close>

lemma handled_mono:
  assumes "handled e1 c1 t r" and "\<And>v. e1 t = Some v \<Longrightarrow> e2 t = Some v"
  shows "handled e2 (c2 @ c1) t r"
  using assms by (auto simp add: handled_def split: if_splits)

lemma translate_text_handled:
  assumes "translate_text p t w = Return r w1"
  shows "\<exists>calls. exchanges w1 = calls @ exchanges w
    \<and> handled (map_of (dictionary w1)) calls t r"
proof (cases rule: translate_text_cases [where t = t and w = w and p = p])
  case blank
  with assms show ?thesis by (auto simp add: translate_text_blank handled_def)
next
  case hit
  then obtain v where v: "map_of (dictionary w) t = Some v"
    by (auto simp add: dict_exists_iff)
  from hit assms v show ?thesis
    by (auto simp add: translate_text_hit handled_def dict_get_def)
next
  case (content c)
  from assms show ?thesis
    unfolding translate_text_content [where p = p, OF content]
    using content(1) by (auto simp add: handled_def)
next
  case interrupt
  from assms show ?thesis
    unfolding translate_text_interrupt [where p = p, OF interrupt] by simp
next
  case failure
  have "translate_text p t w =
     Return t
       (w\<lparr>invoked := t # invoked w, progress := update 1 True False (progress w),
          exchanges := (t, p (exchanges w) t) # exchanges w\<rparr>)"
    using failure by (intro translate_text_failure) simp_all
  with assms failure show ?thesis
    by (auto simp add: handled_def failed_def)
qed

lemma translate_all_keeps_entries:
  assumes "map_of (dictionary w) k = Some v"
  shows "map_of (dictionary (world_of (translate_all p ts w))) k = Some v"
proof -
  let ?R = "\<lambda>a b. map_of (dictionary a) k = Some v \<longrightarrow> map_of (dictionary b) k = Some v"
  have "?R w (world_of (translate_all p ts w))"
    by (rule translate_all_rel [where R = ?R])
      (auto simp add: reflp_def transp_def translate_text_keeps_entries)
  with assms show ?thesis by simp
qed

lemma translate_all_handled:
  "translate_all p ts w = Return rs w' \<Longrightarrow>
     \<exists>calls. exchanges w' = calls @ exchanges w
       \<and> list_all2 (handled (map_of (dictionary w')) calls) ts rs"
proof (induction ts arbitrary: w rs)
  case Nil
  then show ?case by simp
next
  case (Cons t ts)
  from Cons.prems obtain t' w1 rs' where
    1: "translate_text p t w = Return t' w1" and 2: "translate_all p ts w1 = Return rs' w'"
    and 3: "rs = t' # rs'"
    by (cases "translate_text p t w"; cases "translate_all p ts (world_of (translate_text p t w))")
      auto
  from translate_text_handled [OF 1] obtain c1 where
    c1: "exchanges w1 = c1 @ exchanges w" "handled (map_of (dictionary w1)) c1 t t'"
    by blast
  from Cons.IH [OF 2] obtain c2 where
    c2: "exchanges w' = c2 @ exchanges w1"
      "list_all2 (handled (map_of (dictionary w')) c2) ts rs'"
    by blast
  have keep: "map_of (dictionary w') k = Some v" if "map_of (dictionary w1) k = Some v" for k v
    using translate_all_keeps_entries [OF that, of p ts] 2 by simp
  have head: "handled (map_of (dictionary w')) (c2 @ c1) t t'"
    by (rule handled_mono [OF c1(2)]) (rule keep)
  have "handled (map_of (dictionary w')) (c2 @ c1) u r"
    if "handled (map_of (dictionary w')) c2 u r" for u r
    using that by (auto simp add: handled_def split: if_splits)
  with c2(2) have tail: "list_all2 (handled (map_of (dictionary w')) (c2 @ c1)) ts rs'"
    by (rule list_all2_mono)
  from c1 c2 head tail 3 show ?case by simp
qed

lemma translate_all_rendering:
  "answers p reply cache ts \<Longrightarrow> consistent cache reply w \<Longrightarrow>
     returns (consistent cache reply) (translate_all p ts w) (map (rendering cache reply) ts)"
proof (induction ts arbitrary: w)
  case Nil
  then show ?case by simp
next
  case (Cons t ts)
  from Cons.prems have a: "answers p reply cache [t]" "answers p reply cache ts"
    using answers_Cons [of p reply cache t ts] by simp_all
  show ?case
    unfolding translate_all.simps list.map
    by (rule returns_and_then [OF translate_text_rendering [OF a(1) Cons.prems(2)]])
      (rule returns_and_then [OF Cons.IH [OF a(2)]], simp_all)
qed

subsection \<open>The branches of the orchestrator\<close>

lemma main_raises:
  "main p api_key w = Raise AttributeError (w\<lparr>file_path := DICTIONARY_FILE, dictionary := []\<rparr>)"
  by (simp add: main_def main_with_def dict_init_def dict_load_def DICTIONARY_FILE_def)

lemma dict_init_loads:
  "dict_init (PyPath name) w =
     Return () (w\<lparr>file_path := PyPath name, dictionary := stored_entries w\<rparr>)"
  by (cases "dictionary_file w") (simp_all add: dict_init_def dict_load_def stored_entries_def)

lemma dict_init_str:
  "dict_init (PyStr name) w = Raise AttributeError (w\<lparr>file_path := PyStr name, dictionary := []\<rparr>)"
  by (simp add: dict_init_def dict_load_def)

lemma main_finish_None: "main_finish p None = (\<lambda>d' w3. Raise UnboundLocalError w3)"
  by (intro ext) (simp add: main_finish_def)

lemma main_with_remaining_le_0:
  assumes pkg: "package_json w = Some d"
    and key: "api_key \<noteq> []"
    and le: "remaining_items (count_translatable_items d) (w\<lparr>dictionary := stored_entries w\<rparr>) \<le> 0"
  shows "main_with (PyPath name) p api_key w =
     and_then (traverse_and_translate p d
         (w\<lparr>file_path := PyPath name, dictionary := stored_entries w,
            progress := ProgressBar_init (count_translatable_items d)\<rparr>))
       (\<lambda>d' w3. Raise UnboundLocalError w3)"
  using assms
  by (simp add: main_with_def dict_init_loads remaining_items_def main_finish_None Let_def)

lemma main_with_remaining_pos:
  assumes pkg: "package_json w = Some d"
    and key: "api_key \<noteq> []"
    and pos: "0 < remaining_items (count_translatable_items d) (w\<lparr>dictionary := stored_entries w\<rparr>)"
  shows "main_with (PyPath name) p api_key w =
     and_then (traverse_and_translate p d
         (w\<lparr>file_path := PyPath name, dictionary := stored_entries w,
            progress := ProgressBar_init (count_translatable_items d)\<rparr>))
       (\<lambda>d' w3. and_then (translate_contributions_file p (w3\<lparr>package_json := Some d'\<rparr>))
            (\<lambda>ok w4. Return () (dict_save w4)))"
  using assms
  by (simp add: main_with_def dict_init_loads remaining_items_def main_finish_def Let_def)

lemma translate_contributions_file_returns:
  assumes "\<forall>h u. p h u \<noteq> KeyboardInterrupt"
  shows "\<exists>ok w'. translate_contributions_file p w = Return ok w'"
proof -
  have "\<exists>d' w'. translate_in_object p d v = Return d' w'" for d v
    by (rule returns_of_same_outcome [OF translate_in_as_calls(1) translate_all_returns [OF assms]])
  then show ?thesis
    unfolding translate_contributions_file_def
    by (auto simp add: Let_def split: option.splits) (metis and_then_Return)
qed

lemma distinct_leaves_le_entries:
  assumes "list_all (\<lambda>t. t \<in> set (map fst entries)) ts" and "distinct ts"
  shows "length ts \<le> length entries"
proof -
  from assms(1) have "set ts \<subseteq> set (map fst entries)" by (auto simp add: list_all_iff)
  then have "card (set ts) \<le> card (set (map fst entries))" by (intro card_mono) simp_all
  also have "\<dots> \<le> length (map fst entries)" by (rule card_length)
  finally show ?thesis using assms(2) by (simp add: distinct_card)
qed

lemma settings_leaves_items_concat:
  "settings_leaves_items items =
     concat (map (\<lambda>(key, value).
         if key \<in> {''title'', ''label'', ''contents'', ''displayName'', ''description'',
                     ''markdownDescription''} \<and> isinstance_str value
           then [str_of value]
         else if key = ''enumDescriptions'' \<and> isinstance_list value
           then map str_of (filter isinstance_str (list_of_json value))
         else settings_leaves value) items)"
  by (induction items) (auto simp add: REPLACE_TARGET_KEYS_def)

lemma settings_leaves_elems_concat:
  "settings_leaves_elems elems = concat (map settings_leaves elems)"
  by (induction elems) simp_all

subsection \<open>Example runs\<close>

lemma settings_example_run:
  "traverse_and_translate phrasebook settings_example world0 =
     Return
       (JObject [(''title'', JString ''Ni hao''),
                 (''enumDescriptions'', JArray [JString ''Di'', JString [], JString ''Gao''])])
       (world0\<lparr>dictionary := [(''Hello'', ''Ni hao''), (''Low'', ''Di''), (''High'', ''Gao'')],
          progress := \<lparr>total = 0, current = 3, api_calls = 3, cache_hits = 0\<rparr>,
          dictionary_file := Some [(''Hello'', ''Ni hao''), (''Low'', ''Di''), (''High'', ''Gao'')],
          exchanges := [(''High'', Content '' Gao ''), (''Low'', Content ''Di''),
                        (''Hello'', Content ''Ni hao'')],
          invoked := [''High'', [], ''Low'', ''Hello'']\<rparr>)"
  by (simp add: eval_defs)

lemma contributions_example_run:
  "translate_in_object phrasebook contributions_example world0 =
     Return
       (JObject [(''commands'',
                  JArray [JObject [(''label'', JString ''Ni hao''), (''enabled'', JBool True)]])])
       (world0\<lparr>dictionary := [(''Hello'', ''Ni hao'')],
          progress := \<lparr>total = 0, current = 1, api_calls = 1, cache_hits = 0\<rparr>,
          dictionary_file := Some [(''Hello'', ''Ni hao'')],
          exchanges := [(''Hello'', Content ''Ni hao'')],
          invoked := [''Hello'']\<rparr>)"
  by (simp add: eval_defs)

lemma interrupted_run:
  "main_with dictionary_as_path impatient ''key'' two_leaves_world =
     Exit 0
       (two_leaves_world
          \<lparr>dictionary := [(''Hello'', ''Ni hao'')],
           progress := \<lparr>total = 2, current = 2, api_calls = 2, cache_hits = 0\<rparr>,
           dictionary_file := Some [(''Hello'', ''Ni hao'')],
           exchanges := [(''World'', KeyboardInterrupt), (''Hello'', Content ''Ni hao'')],
           invoked := [''World'', ''Hello'']\<rparr>)"
  by (simp add: main_defs eval_defs)

section \<open>The count pass and the translate pass\<close>




section \<open>Blank texts\<close>

text \<open>
  Claim C8: a text that is empty or all whitespace comes back unchanged from
  \<open>translate_text\<close>, and no counter, neither the dictionary nor its file, and no provider
  is touched: the world after the call is the world before it, but for the record that
  the call was made. The equation holds whatever the dictionary holds.
\<close>

theorem blank_text_passes_through:
  "blank t \<Longrightarrow> translate_text p t w = Return t (w\<lparr>invoked := t # invoked w\<rparr>)"
  by (rule translate_text_blank)

theorem blank_text_passes_through_witness:
  "blank ''  ''
   \<and> translate_text phrasebook ''  '' world0 = Return ''  '' (world0\<lparr>invoked := [''  '']\<rparr>)
   \<and> blank []
   \<and> translate_text phrasebook [] world0 = Return [] (world0\<lparr>invoked := [[]]\<rparr>)"
proof -
  have b: "blank ''  ''" "blank []"
    by (simp_all add: blank_def strip_def isspace_def whitespace_def)
  show ?thesis
    using blank_text_passes_through [OF b(1), of phrasebook world0]
      blank_text_passes_through [OF b(2), of phrasebook world0] b
    by (simp add: world0_def)
qed

section \<open>Write-through\<close>

text \<open>
  Claim C5: when \<open>set(key, value)\<close> returns, the file holds the whole mapping of the
  object, \<open>key\<close> bound to \<open>value\<close> in it; and a translation obtained from the provider is
  in the file when \<open>translate_text\<close> returns it and after every later sequence of calls,
  whatever provider they meet.
\<close>

theorem set_writes_through:
  "dictionary_file (dict_set key v w) = Some (dictionary (dict_set key v w))
   \<and> map_of (dictionary (dict_set key v w)) = (map_of (dictionary w))(key \<mapsto> v)
   \<and> (\<not> blank t \<and> \<not> dict_exists t w \<and> p (exchanges w) t = Content c \<longrightarrow>
        (\<exists>w'. translate_text p t w = Return (strip c) w'
           \<and> dictionary_file w' = Some (dictionary w')
           \<and> map_of (dictionary w') t = Some (strip c)
           \<and> (\<forall>q ts. \<exists>entries.
                 dictionary_file (world_of (translate_all q ts w')) = Some entries
                 \<and> map_of entries t = Some (strip c))))"
proof (intro conjI impI)
  assume a: "\<not> blank t \<and> \<not> dict_exists t w \<and> p (exchanges w) t = Content c"
  let ?w' = "dict_set t (strip c)
         (w\<lparr>invoked := t # invoked w, progress := update 1 True False (progress w),
            exchanges := (t, Content c) # exchanges w\<rparr>)"
  have r: "translate_text p t w = Return (strip c) ?w'"
    using a by (simp add: translate_text_content)
  have later: "\<exists>entries. dictionary_file (world_of (translate_all q ts ?w')) = Some entries
                 \<and> map_of entries t = Some (strip c)" for q ts
  proof -
    let ?R = "\<lambda>a b.
      (dictionary_file a = Some (dictionary a) \<and> map_of (dictionary a) t = Some (strip c))
       \<longrightarrow> (dictionary_file b = Some (dictionary b) \<and> map_of (dictionary b) t = Some (strip c))"
    have "?R ?w' (world_of (translate_all q ts ?w'))"
      by (rule translate_all_rel [where R = ?R])
        (auto simp add: reflp_def transp_def translate_text_keeps_entries
          translate_text_keeps_synced)
    then show ?thesis by simp
  qed
  show "\<exists>w'. translate_text p t w = Return (strip c) w'
           \<and> dictionary_file w' = Some (dictionary w')
           \<and> map_of (dictionary w') t = Some (strip c)
           \<and> (\<forall>q ts. \<exists>entries.
                 dictionary_file (world_of (translate_all q ts w')) = Some entries
                 \<and> map_of entries t = Some (strip c))"
    using r later by (intro exI [of _ ?w']) simp
qed simp_all

theorem set_writes_through_witness:
  "\<not> blank ''Hello'' \<and> \<not> dict_exists ''Hello'' world0
   \<and> phrasebook (exchanges world0) ''Hello'' = Content ''Ni hao''
   \<and> (\<exists>w'. translate_text phrasebook ''Hello'' world0 = Return ''Ni hao'' w'
         \<and> dictionary_file w' = Some (dictionary w')
         \<and> map_of (dictionary w') ''Hello'' = Some ''Ni hao'')"
proof -
  have h: "\<not> blank ''Hello'' \<and> \<not> dict_exists ''Hello'' world0
      \<and> phrasebook (exchanges world0) ''Hello'' = Content ''Ni hao''"
    by (simp add: eval_defs)
  have s: "strip ''Ni hao'' = ''Ni hao''"
    by (simp add: eval_defs)
  from set_writes_through [of "''Hello''" "''Ni hao''" world0 "''Hello''" phrasebook "''Ni hao''"] h
  show ?thesis unfolding s by blast
qed

section \<open>A failing provider call\<close>



section \<open>The counters of the progress bar\<close>

text \<open>
  Claim C10: a call of \<open>translate_text\<close> on a text that is not blank adds 1 to \<open>current\<close>
  and 1 to exactly one of \<open>cache_hits\<close> and \<open>api_calls\<close>: to \<open>cache_hits\<close> when the
  dictionary has the text, to \<open>api_calls\<close> otherwise, whatever the provider then does,
  since the counter moves before the request. Hence \<open>current = api_calls + cache_hits\<close>,
  true of a new \<open>ProgressBar\<close>, is true after every sequence of calls.
\<close>

theorem progress_counters_add_up:
  "(\<not> blank t \<longrightarrow>
      current (progress (world_of (translate_text p t w))) = current (progress w) + 1
      \<and> (if dict_exists t w
          then cache_hits (progress (world_of (translate_text p t w))) = cache_hits (progress w) + 1
             \<and> api_calls (progress (world_of (translate_text p t w))) = api_calls (progress w)
          else api_calls (progress (world_of (translate_text p t w))) = api_calls (progress w) + 1
             \<and> cache_hits (progress (world_of (translate_text p t w))) = cache_hits (progress w)))
   \<and> (current (progress w) = api_calls (progress w) + cache_hits (progress w) \<longrightarrow>
        current (progress (world_of (translate_all p ts w)))
        = api_calls (progress (world_of (translate_all p ts w)))
          + cache_hits (progress (world_of (translate_all p ts w))))"
proof (intro conjI impI)
  assume "\<not> blank t"
  then show "current (progress (world_of (translate_text p t w))) = current (progress w) + 1"
    by simp
  show "if dict_exists t w
          then cache_hits (progress (world_of (translate_text p t w))) = cache_hits (progress w) + 1
             \<and> api_calls (progress (world_of (translate_text p t w))) = api_calls (progress w)
          else api_calls (progress (world_of (translate_text p t w))) = api_calls (progress w) + 1
             \<and> cache_hits (progress (world_of (translate_text p t w))) = cache_hits (progress w)"
    using \<open>\<not> blank t\<close> by (simp add: progress_translate_text update_def)
next
  assume inv: "current (progress w) = api_calls (progress w) + cache_hits (progress w)"
  let ?R = "\<lambda>a b. current (progress a) = api_calls (progress a) + cache_hits (progress a)
      \<longrightarrow> current (progress b) = api_calls (progress b) + cache_hits (progress b)"
  have "?R w (world_of (translate_all p ts w))"
    by (rule translate_all_rel [where R = ?R])
      (auto simp add: reflp_def transp_def progress_translate_text update_def)
  with inv show "current (progress (world_of (translate_all p ts w)))
        = api_calls (progress (world_of (translate_all p ts w)))
          + cache_hits (progress (world_of (translate_all p ts w)))"
    by simp
qed

text \<open>
  One call that misses the dictionary, and a sequence of four calls: a miss, a failing
  call, a hit and a blank text.
\<close>

theorem progress_counters_add_up_witness:
  "\<not> blank ''Hello'' \<and> \<not> dict_exists ''Hello'' world0
   \<and> current (progress (world_of (translate_text phrasebook ''Hello'' world0))) = 1
   \<and> api_calls (progress (world_of (translate_text phrasebook ''Hello'' world0))) = 1
   \<and> cache_hits (progress (world_of (translate_text phrasebook ''Hello'' world0))) = 0
   \<and> current (progress world0) = api_calls (progress world0) + cache_hits (progress world0)
   \<and> progress (world_of (translate_all phrasebook [''Hello'', ''Unknown'', ''Hello'', []] world0))
       = \<lparr>total = 0, current = 3, api_calls = 2, cache_hits = 1\<rparr>"
proof -
  have h: "\<not> blank ''Hello''" "\<not> dict_exists ''Hello'' world0"
    "current (progress world0) = api_calls (progress world0) + cache_hits (progress world0)"
    by (simp_all add: eval_defs)
  have run:
    "progress (world_of (translate_all phrasebook [''Hello'', ''Unknown'', ''Hello'', []] world0))
       = \<lparr>total = 0, current = 3, api_calls = 2, cache_hits = 1\<rparr>"
    by (simp add: eval_defs)
  from progress_counters_add_up
    [of "''Hello''" phrasebook world0 "[''Hello'', ''Unknown'', ''Hello'', []]"] h run
  show ?thesis by (simp add: world0_def ProgressBar_init_def)
qed

section \<open>The field-selection rule of the settings walker\<close>

text \<open>
  Claim C4 names five keys. \<open>REPLACE_TARGET_KEYS\<close> has six: \<open>markdownDescription\<close> is
  the sixth. What holds, with the six, of every document: \<open>count_translatable_items\<close>
  returns the number of selected places, and \<open>traverse_and_translate\<close> is the sequence of
  \<open>translate_text\<close> calls on the strings at those places, in the order of the walk,
  followed by the return of the document with the strings those calls returned put at
  those places and nothing else changed. The selected places of an object are, member
  by member: the value itself when it is a string and the key is one of the six; the
  string elements of the value when it is an array and the key is \<open>enumDescriptions\<close>,
  nothing inside the other elements of that array; and the selected places of the
  value in every other case. The selected places of an array are those of its
  elements, and a scalar has none.
\<close>

theorem settings_rule_selects_six_keys:
  "count_translatable_items d = length (settings_leaves d)
   \<and> traverse_and_translate p d w =
       and_then (translate_all p (settings_leaves d) w)
         (\<lambda>rs w'. Return (replaced_settings d rs) w')
   \<and> settings_leaves (JObject items) =
       concat (map (\<lambda>(key, value).
           if key \<in> {''title'', ''label'', ''contents'', ''displayName'', ''description'',
                       ''markdownDescription''} \<and> isinstance_str value
             then [str_of value]
           else if key = ''enumDescriptions'' \<and> isinstance_list value
             then map str_of (filter isinstance_str (list_of_json value))
           else settings_leaves value) items)
   \<and> settings_leaves (JArray elems) = concat (map settings_leaves elems)
   \<and> settings_leaves JNull = [] \<and> settings_leaves (JBool b) = []
   \<and> settings_leaves (JNumber n) = [] \<and> settings_leaves (JString s) = []
   \<and> replaced_settings d (settings_leaves d) = d
   \<and> (length rs = length (settings_leaves d) \<longrightarrow>
        settings_leaves (replaced_settings d rs) = rs)"
proof (intro conjI impI)
  show "count_translatable_items d = length (settings_leaves d)"
    by (simp add: length_settings_leaves)
  show "traverse_and_translate p d w =
       and_then (translate_all p (settings_leaves d) w)
         (\<lambda>rs w'. Return (replaced_settings d rs) w')"
    by (rule traverse_replaces)
  show "settings_leaves (JObject items) =
       concat (map (\<lambda>(key, value).
           if key \<in> {''title'', ''label'', ''contents'', ''displayName'', ''description'',
                       ''markdownDescription''} \<and> isinstance_str value
             then [str_of value]
           else if key = ''enumDescriptions'' \<and> isinstance_list value
             then map str_of (filter isinstance_str (list_of_json value))
           else settings_leaves value) items)"
    using settings_leaves_items_concat [of items] by simp
  show "settings_leaves (JArray elems) = concat (map settings_leaves elems)"
    by (simp add: settings_leaves_elems_concat)
  show "replaced_settings d (settings_leaves d) = d"
    by (rule replaced_same)
  show "settings_leaves (replaced_settings d rs) = rs"
    if "length rs = length (settings_leaves d)"
    using that by (rule leaves_replaced)
qed simp_all

text \<open>
  The example of the specification has four selected places, the empty string among
  them; and in a nested document only the string under \<open>markdownDescription\<close> is
  selected, not the one under \<open>name\<close> nor the one inside an element of the
  \<open>enumDescriptions\<close> array.
\<close>

theorem settings_rule_selects_six_keys_witness:
  "settings_leaves settings_example = [''Hello'', ''Low'', [], ''High'']
   \<and> count_translatable_items settings_example = 4
   \<and> length [''a'', ''b'', ''c'', ''d''] = length (settings_leaves settings_example)
   \<and> replaced_settings settings_example [''a'', ''b'', ''c'', ''d''] =
        JObject [(''title'', JString ''a''),
                 (''enumDescriptions'', JArray [JString ''b'', JString ''c'', JString ''d''])]
   \<and> settings_leaves (replaced_settings settings_example [''a'', ''b'', ''c'', ''d''])
        = [''a'', ''b'', ''c'', ''d'']
   \<and> settings_leaves
        (JObject [(''contributes'',
           JArray [JObject [(''markdownDescription'', JString ''Hello''),
                            (''enumDescriptions'', JArray [JObject [(''title'', JString ''Low'')]]),
                            (''name'', JString ''High'')]])])
        = [''Hello'']"
proof -
  have leaves: "settings_leaves settings_example = [''Hello'', ''Low'', [], ''High'']"
    by (simp add: settings_example_def REPLACE_TARGET_KEYS_def)
  have r: "replaced_settings settings_example [''a'', ''b'', ''c'', ''d''] =
        JObject [(''title'', JString ''a''),
                 (''enumDescriptions'', JArray [JString ''b'', JString ''c'', JString ''d''])]"
    by (simp add: settings_example_def REPLACE_TARGET_KEYS_def)
  have nested: "settings_leaves
        (JObject [(''contributes'',
           JArray [JObject [(''markdownDescription'', JString ''Hello''),
                            (''enumDescriptions'', JArray [JObject [(''title'', JString ''Low'')]]),
                            (''name'', JString ''High'')]])])
        = [''Hello'']"
    by (simp add: REPLACE_TARGET_KEYS_def)
  note inst = settings_rule_selects_six_keys
    [of settings_example phrasebook world0 "[]" "[]" True 0 "[]" "[''a'', ''b'', ''c'', ''d'']"]
  from inst leaves have "count_translatable_items settings_example = 4
     \<and> settings_leaves (replaced_settings settings_example [''a'', ''b'', ''c'', ''d''])
        = [''a'', ''b'', ''c'', ''d'']"
    by simp
  with leaves r nested show ?thesis by simp
qed

text \<open>
  Where C4 fails as it is stated: the string under \<open>markdownDescription\<close>, a key outside
  the five, is counted and translated; and the string under \<open>title\<close> inside an element
  of an \<open>enumDescriptions\<close> array is neither.
\<close>

theorem settings_rule_counterexample:
  "count_translatable_items (JObject [(''markdownDescription'', JString ''Hello'')]) = 1
   \<and> traverse_and_translate phrasebook (JObject [(''markdownDescription'', JString ''Hello'')]) world0
      = Return (JObject [(''markdownDescription'', JString ''Ni hao'')])
          (world_of (translate_text phrasebook ''Hello'' world0))
   \<and> ''markdownDescription'' \<notin> {''title'', ''label'', ''contents'', ''displayName'', ''description''}
   \<and> count_translatable_items
        (JObject [(''enumDescriptions'', JArray [JObject [(''title'', JString ''Hello'')]])]) = 0
   \<and> traverse_and_translate phrasebook
        (JObject [(''enumDescriptions'', JArray [JObject [(''title'', JString ''Hello'')]])]) world0
      = Return (JObject [(''enumDescriptions'', JArray [JObject [(''title'', JString ''Hello'')]])])
          world0"
  by (simp add: eval_defs)

section \<open>The cache\<close>

text \<open>
  Claim C9 has \<open>translate_text(T)\<close> take the cache-hit path for every text \<open>T\<close> once
  \<open>set(T, R)\<close> has completed. What holds: in every world \<open>w2\<close> reached from
  \<open>set(T, R)\<close> by a sequence of \<open>translate_text\<close> calls, \<open>get(T)\<close> is \<open>R\<close>; the file
  holds the mapping of the object, so that a \<open>TranslationDictionary\<close> made over a
  \<open>Path\<close> to that file loads it and its \<open>get(T)\<close> is \<open>R\<close>; \<open>translate_text(T)\<close> makes no
  provider call; and it takes the cache-hit path, returning \<open>R\<close>, when \<open>T\<close> is not blank.
\<close>

theorem cached_translation_is_reused:
  assumes "w2 = world_of (translate_all q ts (dict_set T R w))"
  shows "dict_get T w2 = Some R
    \<and> dictionary_file w2 = Some (dictionary w2)
    \<and> (\<forall>w3 name. dictionary_file w3 = dictionary_file w2 \<longrightarrow>
          (\<exists>w4. dict_init (PyPath name) w3 = Return () w4 \<and> dict_get T w4 = Some R))
    \<and> (\<not> blank T \<longrightarrow>
          translate_text p T w2 =
            Return R (w2\<lparr>invoked := T # invoked w2,
                          progress := update 1 False True (progress w2)\<rparr>))
    \<and> exchanges (world_of (translate_text p T w2)) = exchanges w2"
proof -
  have keep: "dictionary_file w2 = Some (dictionary w2) \<and> map_of (dictionary w2) T = Some R"
    unfolding assms by (rule translate_all_keeps_synced_entry) simp_all
  then have ex: "dict_exists T w2" and get: "dict_get T w2 = Some R"
    by (simp_all add: dict_exists_iff dict_get_def)
  have hit: "translate_text p T w2 =
      Return R (w2\<lparr>invoked := T # invoked w2, progress := update 1 False True (progress w2)\<rparr>)"
    if "\<not> blank T"
    using that ex get by (simp add: translate_text_hit)
  have "exchanges (world_of (translate_text p T w2)) = exchanges w2"
    by (cases "blank T") (simp_all add: translate_text_blank hit)
  moreover have "\<exists>w4. dict_init (PyPath name) w3 = Return () w4 \<and> dict_get T w4 = Some R"
    if "dictionary_file w3 = dictionary_file w2" for w3 name
    using that keep by (simp add: dict_init_Path [where entries = "dictionary w2"] dict_get_def)
  ultimately show ?thesis using keep get hit by blast
qed

text \<open>
  \<open>set("Hello", "Ni hao")\<close>, then two calls on other texts, one of which fails; then the
  call on \<open>"Hello"\<close>, and the load of a later run.
\<close>

theorem cached_translation_is_reused_witness:
  "world_of (translate_all phrasebook [''Low'', ''Unknown''] (dict_set ''Hello'' ''Ni hao'' world0))
     = world0\<lparr>dictionary := [(''Hello'', ''Ni hao''), (''Low'', ''Di'')],
          progress := \<lparr>total = 0, current = 2, api_calls = 2, cache_hits = 0\<rparr>,
          dictionary_file := Some [(''Hello'', ''Ni hao''), (''Low'', ''Di'')],
          exchanges := [(''Unknown'', Timeout), (''Low'', Content ''Di'')],
          invoked := [''Unknown'', ''Low'']\<rparr>
   \<and> dict_get ''Hello''
        (world_of (translate_all phrasebook [''Low'', ''Unknown''] (dict_set ''Hello'' ''Ni hao'' world0)))
       = Some ''Ni hao''
   \<and> \<not> blank ''Hello''
   \<and> translate_text phrasebook ''Hello''
        (world_of (translate_all phrasebook [''Low'', ''Unknown''] (dict_set ''Hello'' ''Ni hao'' world0)))
       = Return ''Ni hao''
          (world0\<lparr>dictionary := [(''Hello'', ''Ni hao''), (''Low'', ''Di'')],
             progress := \<lparr>total = 0, current = 3, api_calls = 2, cache_hits = 1\<rparr>,
             dictionary_file := Some [(''Hello'', ''Ni hao''), (''Low'', ''Di'')],
             exchanges := [(''Unknown'', Timeout), (''Low'', Content ''Di'')],
             invoked := [''Hello'', ''Unknown'', ''Low'']\<rparr>)
   \<and> (\<exists>w4. dict_init (PyPath ''translation_dictionary.json'')
          (world0\<lparr>dictionary_file := Some [(''Hello'', ''Ni hao''), (''Low'', ''Di'')]\<rparr>)
          = Return () w4 \<and> dict_get ''Hello'' w4 = Some ''Ni hao'')"
proof -
  let ?w2 = "world_of (translate_all phrasebook [''Low'', ''Unknown'']
    (dict_set ''Hello'' ''Ni hao'' world0))"
  have run: "?w2 = world0\<lparr>dictionary := [(''Hello'', ''Ni hao''), (''Low'', ''Di'')],
          progress := \<lparr>total = 0, current = 2, api_calls = 2, cache_hits = 0\<rparr>,
          dictionary_file := Some [(''Hello'', ''Ni hao''), (''Low'', ''Di'')],
          exchanges := [(''Unknown'', Timeout), (''Low'', Content ''Di'')],
          invoked := [''Unknown'', ''Low'']\<rparr>"
    by (simp add: eval_defs)
  have b: "\<not> blank ''Hello''" by (simp add: eval_defs)
  have f: "dictionary_file
        (world0\<lparr>dictionary_file := Some [(''Hello'', ''Ni hao''), (''Low'', ''Di'')]\<rparr>)
      = dictionary_file ?w2"
    unfolding run by simp
  note inst = cached_translation_is_reused [OF refl,
      of "''Hello''" phrasebook "[''Low'', ''Unknown'']" "''Ni hao''" world0 phrasebook]
  from inst b f have
    1: "dict_get ''Hello'' ?w2 = Some ''Ni hao''"
    and 2: "translate_text phrasebook ''Hello'' ?w2 =
            Return ''Ni hao'' (?w2\<lparr>invoked := ''Hello'' # invoked ?w2,
                          progress := update 1 False True (progress ?w2)\<rparr>)"
    and 3: "\<exists>w4. dict_init (PyPath ''translation_dictionary.json'')
          (world0\<lparr>dictionary_file := Some [(''Hello'', ''Ni hao''), (''Low'', ''Di'')]\<rparr>)
          = Return () w4 \<and> dict_get ''Hello'' w4 = Some ''Ni hao''"
    by blast+
  have 4: "?w2\<lparr>invoked := ''Hello'' # invoked ?w2, progress := update 1 False True (progress ?w2)\<rparr>
     = world0\<lparr>dictionary := [(''Hello'', ''Ni hao''), (''Low'', ''Di'')],
             progress := \<lparr>total = 0, current = 3, api_calls = 2, cache_hits = 1\<rparr>,
             dictionary_file := Some [(''Hello'', ''Ni hao''), (''Low'', ''Di'')],
             exchanges := [(''Unknown'', Timeout), (''Low'', Content ''Di'')],
             invoked := [''Hello'', ''Unknown'', ''Low'']\<rparr>"
    unfolding run by (simp add: update_def world0_def)
  show ?thesis using run 1 2 3 b unfolding 4 by simp
qed

text \<open>
  Where C9 fails as it is stated: after \<open>set("", "x")\<close> the dictionary has the empty
  text, and \<open>translate_text("")\<close> returns the empty text, not \<open>"x"\<close>, and records no
  cache hit: the test for a blank text comes before the lookup.
\<close>

theorem cached_translation_counterexample:
  "dict_get [] (dict_set [] ''x'' world0) = Some ''x''
   \<and> translate_text phrasebook [] (dict_set [] ''x'' world0)
       = Return [] ((dict_set [] ''x'' world0)\<lparr>invoked := [[]]\<rparr>)
   \<and> cache_hits (progress ((dict_set [] ''x'' world0)\<lparr>invoked := [[]]\<rparr>))
       = cache_hits (progress (dict_set [] ''x'' world0))"
  by (simp add: eval_defs)

section \<open>Interruption\<close>

text \<open>
  Claim C6: a document file is written only after the pass over that document has
  returned, and an interrupted run leaves the document it was working on as it was, the
  dictionary file holding every translation obtained. Interruptions are those the model
  has: of an outstanding provider call. A pass, however it ends, leaves both document
  files as they were; \<open>signal_handler\<close>, in whatever world it runs, writes the dictionary
  file and nothing else; however \<open>main\<close> ends, each document file is as before the run
  or holds the tree returned by the completed pass over it; and when \<open>main\<close> ends in
  \<open>sys.exit\<close>, \<open>contributions.json\<close> is as before the run and, after an interruption
  (status 0), the dictionary file holds the mapping of the object, in which every
  translation the provider delivered during the run is present. The theorem holds for
  either kind of value of \<open>DICTIONARY_FILE\<close>.
\<close>

theorem interrupted_run_keeps_documents:
  "package_json (world_of (traverse_and_translate p d w)) = package_json w
   \<and> contributions_json (world_of (translate_in_object p d w)) = contributions_json w
   \<and> signal_handler w = Exit 0 (w\<lparr>dictionary_file := Some (dictionary w)\<rparr>)
   \<and> (package_json (world_of (main_with dictionary_path p api_key w)) = package_json w
      \<or> (\<exists>u w1 data data' w3. dict_init dictionary_path w = Return u w1
            \<and> package_json w = Some data
            \<and> traverse_and_translate p data
                 (w1\<lparr>progress := ProgressBar_init (count_translatable_items data)\<rparr>)
               = Return data' w3
            \<and> package_json (world_of (main_with dictionary_path p api_key w)) = Some data'))
   \<and> (contributions_json (world_of (main_with dictionary_path p api_key w)) = contributions_json w
      \<or> (\<exists>data w2 data' w3. contributions_json w = Some data
            \<and> translate_in_object p data w2 = Return data' w3
            \<and> contributions_json (world_of (main_with dictionary_path p api_key w)) = Some data'))
   \<and> (main_with dictionary_path p api_key w = Exit c w' \<and> exchanges w = [] \<longrightarrow>
        contributions_json w' = contributions_json w
        \<and> (c = 0 \<longrightarrow>
              dictionary_file w' = Some (dictionary w')
              \<and> (\<forall>t r. (t, Content r) \<in> set (exchanges w') \<longrightarrow>
                    map_of (dictionary w') t = Some (strip r))))"
proof -
  have "package_json (world_of (traverse_and_translate p d w)) = package_json w"
    using settings_pass_world [of p d w] by simp
  moreover have "contributions_json (world_of (translate_in_object p d w)) = contributions_json w"
    using contributions_pass_world [of p d w] by simp
  moreover have "signal_handler w = Exit 0 (w\<lparr>dictionary_file := Some (dictionary w)\<rparr>)"
    by (simp add: signal_handler_def dict_save_def)
  moreover note main_with_documents [of dictionary_path p api_key w]
  moreover have "contributions_json w' = contributions_json w
        \<and> (c = 0 \<longrightarrow>
              dictionary_file w' = Some (dictionary w')
              \<and> (\<forall>t r. (t, Content r) \<in> set (exchanges w') \<longrightarrow>
                    map_of (dictionary w') t = Some (strip r)))"
    if "main_with dictionary_path p api_key w = Exit c w' \<and> exchanges w = []"
    using main_with_Exit [of dictionary_path p api_key w c w'] that
    by (simp add: retained_def)
  ultimately show ?thesis by blast
qed


text \<open>
  A run over two leaves, interrupted during the provider call for the second: the first
  translation is in the dictionary file and \<open>package.json\<close> is untouched.
\<close>

theorem interrupted_run_keeps_documents_witness:
  "(\<exists>w'. main_with dictionary_as_path impatient ''key'' two_leaves_world = Exit 0 w'
      \<and> exchanges two_leaves_world = []
      \<and> contributions_json w' = contributions_json two_leaves_world
      \<and> package_json w' = package_json two_leaves_world
      \<and> dictionary_file w' = Some (dictionary w')
      \<and> (''Hello'', Content ''Ni hao'') \<in> set (exchanges w')
      \<and> map_of (dictionary w') ''Hello'' = Some ''Ni hao'')"
proof -
  have e: "exchanges two_leaves_world = []"
    by (simp add: two_leaves_world_def world0_def)
  have s: "strip ''Ni hao'' = ''Ni hao''" by (simp add: eval_defs)
  note inst = interrupted_run_keeps_documents
    [of impatient JNull two_leaves_world dictionary_as_path "''key''" 0]
  from inst interrupted_run e s show ?thesis
    by (simp add: two_leaves_world_def world0_def)
qed

section \<open>The run as a whole\<close>

text \<open>
  Claim C2 says that the orchestrator performs the same translate pass and the same
  write-back of the document whatever the sign of \<open>remaining\<close>. \<open>main\<close> performs neither,
  on any input: \<open>DICTIONARY_FILE\<close> is a string, \<open>load\<close> calls \<open>exists()\<close> on it, and the
  \<open>AttributeError\<close> ends the run on line 67, before \<open>package.json\<close> is read. And whatever
  value the constant has, a run in which \<open>remaining\<close> is not positive does not return
  and leaves \<open>package.json\<close> as it was: over a \<open>Path\<close> the branch of line 333 runs the pass
  with a \<open>ProgressBar\<close> bound to no variable, line 341 then reads the local variable
  \<open>progress\<close>, which no assignment has bound, and the \<open>UnboundLocalError\<close> ends the run
  before line 343 writes the file. Over a \<open>Path\<close>, when \<open>remaining\<close> is positive and no
  provider call is interrupted, the run returns and \<open>package.json\<close> holds the tree the
  pass returned.
\<close>

theorem write_back_depends_on_remaining:
  "main p api_key w = Raise AttributeError (w\<lparr>file_path := DICTIONARY_FILE, dictionary := []\<rparr>)
   \<and> (package_json w = Some d
        \<and> remaining_items (count_translatable_items d) (w\<lparr>dictionary := stored_entries w\<rparr>) \<le> 0 \<longrightarrow>
        (\<forall>x w'. main_with dictionary_path p api_key w \<noteq> Return x w')
        \<and> package_json (world_of (main_with dictionary_path p api_key w)) = Some d)
   \<and> (package_json w = Some d \<and> api_key \<noteq> [] \<and> (\<forall>h u. p h u \<noteq> KeyboardInterrupt)
        \<and> 0 < remaining_items (count_translatable_items d) (w\<lparr>dictionary := stored_entries w\<rparr>) \<longrightarrow>
        (\<exists>d' w3 w'.
            traverse_and_translate p d
              (w\<lparr>file_path := PyPath name, dictionary := stored_entries w,
                 progress := ProgressBar_init (count_translatable_items d)\<rparr>) = Return d' w3
          \<and> main_with (PyPath name) p api_key w = Return () w'
          \<and> package_json w' = Some d'))"
proof (intro conjI impI)
  show "main p api_key w = Raise AttributeError (w\<lparr>file_path := DICTIONARY_FILE, dictionary := []\<rparr>)"
    by (rule main_raises)
next
  assume a: "package_json w = Some d
      \<and> remaining_items (count_translatable_items d) (w\<lparr>dictionary := stored_entries w\<rparr>) \<le> 0"
  let ?w2 = "\<lambda>name. w\<lparr>file_path := PyPath name, dictionary := stored_entries w,
            progress := ProgressBar_init (count_translatable_items d)\<rparr>"
  have "(\<forall>x w'. main_with dictionary_path p api_key w \<noteq> Return x w')
        \<and> package_json (world_of (main_with dictionary_path p api_key w)) = Some d"
  proof (cases dictionary_path)
    case (PyStr name)
    with a show ?thesis by (simp add: main_with_def dict_init_str)
  next
    case (PyPath name)
    show ?thesis
    proof (cases "api_key = []")
      case True
      with a PyPath show ?thesis by (simp add: main_with_def dict_init_loads)
    next
      case False
      have pass: "package_json (world_of (traverse_and_translate p d (?w2 name))) = Some d"
        using settings_pass_world [of p d "?w2 name"] a by simp
      from a False have run: "main_with (PyPath name) p api_key w =
          and_then (traverse_and_translate p d (?w2 name)) (\<lambda>d' w3. Raise UnboundLocalError w3)"
        by (intro main_with_remaining_le_0) simp_all
      show ?thesis
        unfolding PyPath run using pass
        by (cases "traverse_and_translate p d (?w2 name)") simp_all
    qed
  qed
  then show "\<forall>x w'. main_with dictionary_path p api_key w \<noteq> Return x w'"
    and "package_json (world_of (main_with dictionary_path p api_key w)) = Some d"
    by simp_all
next
  assume a: "package_json w = Some d \<and> api_key \<noteq> [] \<and> (\<forall>h u. p h u \<noteq> KeyboardInterrupt)
        \<and> 0 < remaining_items (count_translatable_items d) (w\<lparr>dictionary := stored_entries w\<rparr>)"
  let ?w2 = "w\<lparr>file_path := PyPath name, dictionary := stored_entries w,
            progress := ProgressBar_init (count_translatable_items d)\<rparr>"
  from a have ni: "\<forall>h u. p h u \<noteq> KeyboardInterrupt" by simp
  obtain d' w3 where pass: "traverse_and_translate p d ?w2 = Return d' w3"
    using returns_of_same_outcome [OF traverse_as_calls(1) translate_all_returns [OF ni]]
    by blast
  obtain ok w4 where contrib:
    "translate_contributions_file p (w3\<lparr>package_json := Some d'\<rparr>) = Return ok w4"
    using translate_contributions_file_returns [OF ni] by blast
  have "package_json w4 = Some d'"
    using translate_contributions_file_world [of p "w3\<lparr>package_json := Some d'\<rparr>"] contrib
    by simp
  moreover from a have "main_with (PyPath name) p api_key w =
     and_then (traverse_and_translate p d ?w2)
       (\<lambda>d' w3. and_then (translate_contributions_file p (w3\<lparr>package_json := Some d'\<rparr>))
            (\<lambda>ok w4. Return () (dict_save w4)))"
    by (intro main_with_remaining_pos) simp_all
  ultimately show "\<exists>d' w3 w'.
            traverse_and_translate p d ?w2 = Return d' w3
          \<and> main_with (PyPath name) p api_key w = Return () w'
          \<and> package_json w' = Some d'"
    using pass contrib by simp
qed

text \<open>
  \<open>package.json\<close> is \<open>{"title": "Hello"}\<close>. With the dictionary file
  \<open>{"Hello": "Ni hao"}\<close>, \<open>remaining\<close> is 0 and \<open>main\<close> does not return, the file
  unwritten; over a \<open>Path\<close> the run ends in \<open>UnboundLocalError\<close>. Without the dictionary
  file \<open>remaining\<close> is 1: over a \<open>Path\<close> the document is written back, and \<open>main\<close> ends in
  \<open>AttributeError\<close>.
\<close>

theorem write_back_depends_on_remaining_witness:
  "package_json warm_world = Some (JObject [(''title'', JString ''Hello'')])
   \<and> remaining_items (count_translatable_items (JObject [(''title'', JString ''Hello'')]))
        (warm_world\<lparr>dictionary := stored_entries warm_world\<rparr>) = 0
   \<and> (\<forall>x w'. main phrasebook ''key'' warm_world \<noteq> Return x w')
   \<and> package_json (world_of (main phrasebook ''key'' warm_world))
        = Some (JObject [(''title'', JString ''Hello'')])
   \<and> main_with dictionary_as_path phrasebook ''key'' warm_world =
       Raise UnboundLocalError
         (warm_world\<lparr>dictionary := [(''Hello'', ''Ni hao'')],
            progress := \<lparr>total = 1, current = 1, api_calls = 0, cache_hits = 1\<rparr>,
            invoked := [''Hello'']\<rparr>)
   \<and> package_json cold_world = Some (JObject [(''title'', JString ''Hello'')])
   \<and> remaining_items (count_translatable_items (JObject [(''title'', JString ''Hello'')]))
        (cold_world\<lparr>dictionary := stored_entries cold_world\<rparr>) = 1
   \<and> (\<forall>h u. phrasebook h u \<noteq> KeyboardInterrupt)
   \<and> (\<exists>w'. main_with dictionary_as_path phrasebook ''key'' cold_world = Return () w'
          \<and> package_json w' = Some (JObject [(''title'', JString ''Ni hao'')]))
   \<and> main phrasebook ''key'' cold_world =
       Raise AttributeError (cold_world\<lparr>file_path := DICTIONARY_FILE, dictionary := []\<rparr>)"
proof -
  let ?d = "JObject [(''title'', JString ''Hello'')]"
  have pw: "package_json warm_world = Some ?d" and pc: "package_json cold_world = Some ?d"
    by (simp_all add: warm_world_def cold_world_def world0_def)
  have rw: "remaining_items (count_translatable_items ?d)
        (warm_world\<lparr>dictionary := stored_entries warm_world\<rparr>) = 0"
    and rc: "remaining_items (count_translatable_items ?d)
        (cold_world\<lparr>dictionary := stored_entries cold_world\<rparr>) = 1"
    by (simp_all add: remaining_items_def stored_entries_def warm_world_def cold_world_def
        world0_def REPLACE_TARGET_KEYS_def)
  have ni: "\<forall>h u. phrasebook h u \<noteq> KeyboardInterrupt" by (simp add: phrasebook_def)
  have warm: "main_with dictionary_as_path phrasebook ''key'' warm_world =
       Raise UnboundLocalError
         (warm_world\<lparr>dictionary := [(''Hello'', ''Ni hao'')],
            progress := \<lparr>total = 1, current = 1, api_calls = 0, cache_hits = 1\<rparr>,
            invoked := [''Hello'']\<rparr>)"
    by (simp add: main_defs eval_defs)
  have cold: "main_with dictionary_as_path phrasebook ''key'' cold_world =
       Return ()
         (cold_world\<lparr>dictionary := [(''Hello'', ''Ni hao'')],
            progress := \<lparr>total = 1, current = 1, api_calls = 1, cache_hits = 0\<rparr>,
            dictionary_file := Some [(''Hello'', ''Ni hao'')],
            package_json := Some (JObject [(''title'', JString ''Ni hao'')]),
            exchanges := [(''Hello'', Content ''Ni hao'')],
            invoked := [''Hello'']\<rparr>)"
    by (simp add: main_defs eval_defs)
  note at_warm = write_back_depends_on_remaining
    [of phrasebook "''key''" warm_world ?d DICTIONARY_FILE "''translation_dictionary.json''"]
  note at_cold = write_back_depends_on_remaining
    [of phrasebook "''key''" cold_world ?d dictionary_as_path "''translation_dictionary.json''"]
  from at_warm pw rw have 1: "(\<forall>x w'. main phrasebook ''key'' warm_world \<noteq> Return x w')
     \<and> package_json (world_of (main phrasebook ''key'' warm_world)) = Some ?d"
    by (simp add: main_def)
  from at_cold have 2: "main phrasebook ''key'' cold_world =
       Raise AttributeError (cold_world\<lparr>file_path := DICTIONARY_FILE, dictionary := []\<rparr>)"
    by simp
  from 1 2 pw pc rw rc ni warm cold show ?thesis by simp
qed

section \<open>Running again with a warm cache\<close>

text \<open>
  What holds of the pass. Started with a dictionary that has every leaf of the document
  that is not blank, \<open>traverse_and_translate\<close> calls no provider, leaves the dictionary
  and its file as they are, and returns the tree with each such leaf replaced by its
  entry, whatever the provider; and that tree is the one an earlier pass over the same
  document returned, when the replies of the provider in that pass depended on the text
  alone and the dictionary is the one that pass left.
\<close>

lemma warm_pass_repeats:
  "(list_all (\<lambda>t. blank t \<or> dict_exists t w) (settings_leaves d) \<longrightarrow>
      (\<exists>w'. traverse_and_translate p d w =
          Return (translated_settings (from_cache (map_of (dictionary w))) d) w'
        \<and> exchanges w' = exchanges w \<and> dictionary w' = dictionary w
        \<and> dictionary_file w' = dictionary_file w))
   \<and> ((\<forall>h u. p1 h u = reply u) \<and> (\<forall>u. reply u \<noteq> KeyboardInterrupt)
        \<and> traverse_and_translate p1 d w1 = Return d1 v1
        \<and> list_all (\<lambda>t. blank t \<or> dict_exists t v1) (settings_leaves d)
        \<and> dictionary w2 = dictionary v1 \<longrightarrow>
      (\<exists>v2. traverse_and_translate p2 d w2 = Return d1 v2
        \<and> exchanges v2 = exchanges w2 \<and> dictionary v2 = dictionary w2
        \<and> dictionary_file v2 = dictionary_file w2))"
proof (intro conjI impI)
  assume "list_all (\<lambda>t. blank t \<or> dict_exists t w) (settings_leaves d)"
  then show "\<exists>w'. traverse_and_translate p d w =
          Return (translated_settings (from_cache (map_of (dictionary w))) d) w'
        \<and> exchanges w' = exchanges w \<and> dictionary w' = dictionary w
        \<and> dictionary_file w' = dictionary_file w"
    by (rule warm_pass_rendering)
next
  assume a: "(\<forall>h u. p1 h u = reply u) \<and> (\<forall>u. reply u \<noteq> KeyboardInterrupt)
        \<and> traverse_and_translate p1 d w1 = Return d1 v1
        \<and> list_all (\<lambda>t. blank t \<or> dict_exists t v1) (settings_leaves d)
        \<and> dictionary w2 = dictionary v1"
  let ?c1 = "map_of (dictionary w1)"
  from a have "answers p1 reply ?c1 (settings_leaves d)" by (intro answers_all) simp_all
  from traverse_rendering(1) [OF this consistent_start] a
  have d1: "d1 = translated_settings (rendering ?c1 reply) d" and J: "consistent ?c1 reply v1"
    by (auto simp add: returns_def)
  from a have warm2: "list_all (\<lambda>t. blank t \<or> dict_exists t w2) (settings_leaves d)"
    by (simp add: dict_exists_def)
  have same: "from_cache (map_of (dictionary w2)) t = rendering ?c1 reply t"
    if "t \<in> set (settings_leaves d)" for t
  proof (cases "blank t")
    case True
    then show ?thesis by (simp add: from_cache_def rendering_def)
  next
    case False
    with that a obtain r where r: "map_of (dictionary v1) t = Some r"
      by (auto simp add: list_all_iff dict_exists_iff)
    from J [unfolded consistent_def, rule_format, of t] r
    consider "?c1 t = Some r" | c where "?c1 t = None" "reply t = Content c" "r = strip c"
      by auto
    then have "rendering ?c1 reply t = r"
      using False by cases (simp_all add: rendering_def)
    moreover from a r False have "from_cache (map_of (dictionary w2)) t = r"
      by (simp add: from_cache_def)
    ultimately show ?thesis by simp
  qed
  have "translated_settings (from_cache (map_of (dictionary w2))) d = d1"
    unfolding d1 by (rule translated_settings_cong(1)) (simp add: same)
  with warm_pass_rendering [OF warm2, of p2]
  show "\<exists>v2. traverse_and_translate p2 d w2 = Return d1 v2
        \<and> exchanges v2 = exchanges w2 \<and> dictionary v2 = dictionary w2
        \<and> dictionary_file v2 = dictionary_file w2"
    by simp
qed

text \<open>
  The example of the specification, translated by \<open>phrasebook\<close>; then again, from the
  dictionary the first pass left, with a provider that would be interrupted if called.
\<close>

lemma warm_pass_repeats_example:
  "(\<forall>h u. phrasebook h u = phrasebook [] u) \<and> (\<forall>u. phrasebook [] u \<noteq> KeyboardInterrupt)
   \<and> (\<exists>v1. traverse_and_translate phrasebook settings_example world0
            = Return settings_example_translated v1
         \<and> dictionary v1 = settings_example_cache
         \<and> list_all (\<lambda>t. blank t \<or> dict_exists t v1) (settings_leaves settings_example))
   \<and> list_all (\<lambda>t. blank t \<or> dict_exists t (world0\<lparr>dictionary := settings_example_cache\<rparr>))
        (settings_leaves settings_example)
   \<and> (\<exists>v2. traverse_and_translate impatient settings_example
              (world0\<lparr>dictionary := settings_example_cache\<rparr>)
            = Return settings_example_translated v2
         \<and> exchanges v2 = exchanges (world0\<lparr>dictionary := settings_example_cache\<rparr>)
         \<and> dictionary v2 = settings_example_cache)"
proof -
  let ?v1 = "world0\<lparr>dictionary := [(''Hello'', ''Ni hao''), (''Low'', ''Di''), (''High'', ''Gao'')],
          progress := \<lparr>total = 0, current = 3, api_calls = 3, cache_hits = 0\<rparr>,
          dictionary_file := Some [(''Hello'', ''Ni hao''), (''Low'', ''Di''), (''High'', ''Gao'')],
          exchanges := [(''High'', Content '' Gao ''), (''Low'', Content ''Di''),
                        (''Hello'', Content ''Ni hao'')],
          invoked := [''High'', [], ''Low'', ''Hello'']\<rparr>"
  let ?w2 = "world0\<lparr>dictionary := settings_example_cache\<rparr>"
  have p: "(\<forall>h u. phrasebook h u = phrasebook [] u) \<and> (\<forall>u. phrasebook [] u \<noteq> KeyboardInterrupt)"
    by (simp add: phrasebook_def)
  have run1: "traverse_and_translate phrasebook settings_example world0
      = Return settings_example_translated ?v1"
    using settings_example_run by (simp add: settings_example_translated_def)
  have warm1: "list_all (\<lambda>t. blank t \<or> dict_exists t ?v1) (settings_leaves settings_example)"
    by (simp add: eval_defs)
  have warm2: "list_all (\<lambda>t. blank t \<or> dict_exists t ?w2) (settings_leaves settings_example)"
    by (simp add: eval_defs more_defs)
  have d: "dictionary ?w2 = dictionary ?v1" "dictionary ?v1 = settings_example_cache"
    by (simp_all add: settings_example_cache_def)
  note inst = warm_pass_repeats
    [of ?w2 settings_example impatient phrasebook "phrasebook []" world0
      settings_example_translated ?v1 ?w2 impatient]
  from inst p run1 warm1 warm2 d
  have "\<exists>v2. traverse_and_translate impatient settings_example ?w2
            = Return settings_example_translated v2
         \<and> exchanges v2 = exchanges ?w2 \<and> dictionary v2 = dictionary ?w2
         \<and> dictionary_file v2 = dictionary_file ?w2"
    by blast
  with p run1 warm1 warm2 d show ?thesis by auto
qed

text \<open>
  A pass in which the first of two calls for the same text fails returns the first
  place untranslated and the second translated; the pass after it, from the dictionary
  then left, makes no call and returns both translated.
\<close>

lemma pass_after_a_failed_call:
  "traverse_and_translate flaky twice_low world0 =
     Return (JObject [(''enumDescriptions'', JArray [JString ''Low'', JString ''Di''])])
       (world0\<lparr>dictionary := [(''Low'', ''Di'')],
          progress := \<lparr>total = 0, current = 2, api_calls = 2, cache_hits = 0\<rparr>,
          dictionary_file := Some [(''Low'', ''Di'')],
          exchanges := [(''Low'', Content ''Di''), (''Low'', Timeout)],
          invoked := [''Low'', ''Low'']\<rparr>)
   \<and> traverse_and_translate flaky twice_low (world0\<lparr>dictionary := [(''Low'', ''Di'')]\<rparr>) =
     Return (JObject [(''enumDescriptions'', JArray [JString ''Di'', JString ''Di''])])
       (world0\<lparr>dictionary := [(''Low'', ''Di'')],
          progress := \<lparr>total = 0, current = 2, api_calls = 0, cache_hits = 2\<rparr>,
          invoked := [''Low'', ''Low'']\<rparr>)"
  by (simp add: eval_defs more_defs)

text \<open>
  Claim C3 says that a second run of the orchestrator over the same document, the cache
  holding every translatable leaf, makes no provider call, completes and writes the
  output of the first. No run of \<open>main\<close> completes: it makes no provider call and ends in
  the \<open>AttributeError\<close> of \<open>load\<close>, \<open>package.json\<close> unwritten. Over a \<open>Path\<close>, a run whose
  dictionary file has every leaf of \<open>package.json\<close> that is not blank, and at least as
  many entries as the document has leaves, makes no provider call and ends in the
  \<open>UnboundLocalError\<close> of line 341, \<open>package.json\<close> and the dictionary file as they were.
  That many entries are there whenever the leaves are pairwise distinct and each is a
  key of the dictionary file.
\<close>

theorem warm_rerun_does_not_complete:
  "(\<exists>w'. main p api_key w = Raise AttributeError w'
        \<and> exchanges w' = exchanges w \<and> package_json w' = package_json w)
   \<and> (package_json w = Some d \<and> dictionary_file w = Some entries \<and> api_key \<noteq> []
        \<and> list_all (\<lambda>t. blank t \<or> t \<in> set (map fst entries)) (settings_leaves d)
        \<and> count_translatable_items d \<le> length entries \<longrightarrow>
        (\<exists>w'. main_with (PyPath name) p api_key w = Raise UnboundLocalError w'
           \<and> exchanges w' = exchanges w \<and> package_json w' = Some d
           \<and> dictionary_file w' = Some entries))
   \<and> (list_all (\<lambda>t. t \<in> set (map fst entries)) (settings_leaves d)
        \<and> distinct (settings_leaves d) \<longrightarrow>
        count_translatable_items d \<le> length entries)"
proof (intro conjI impI)
  show "\<exists>w'. main p api_key w = Raise AttributeError w'
        \<and> exchanges w' = exchanges w \<and> package_json w' = package_json w"
    by (simp add: main_raises)
next
  assume a: "package_json w = Some d \<and> dictionary_file w = Some entries \<and> api_key \<noteq> []
        \<and> list_all (\<lambda>t. blank t \<or> t \<in> set (map fst entries)) (settings_leaves d)
        \<and> count_translatable_items d \<le> length entries"
  let ?w2 = "w\<lparr>file_path := PyPath name, dictionary := stored_entries w,
            progress := ProgressBar_init (count_translatable_items d)\<rparr>"
  from a have st: "stored_entries w = entries" by (simp add: stored_entries_def)
  from a st have warm: "list_all (\<lambda>t. blank t \<or> dict_exists t ?w2) (settings_leaves d)"
    by (simp add: dict_exists_def)
  from warm_pass_rendering [OF warm, of p] obtain w3 where
    pass: "traverse_and_translate p d ?w2 =
        Return (translated_settings (from_cache (map_of (dictionary ?w2))) d) w3"
    and same: "exchanges w3 = exchanges ?w2" "dictionary_file w3 = dictionary_file ?w2"
    by blast
  have pkg: "package_json w3 = Some d"
    using settings_pass_world [of p d ?w2] pass a by simp
  from a st have "main_with (PyPath name) p api_key w =
      and_then (traverse_and_translate p d ?w2) (\<lambda>d' w3. Raise UnboundLocalError w3)"
    by (intro main_with_remaining_le_0) (simp_all add: remaining_items_def)
  with pass same pkg a
  show "\<exists>w'. main_with (PyPath name) p api_key w = Raise UnboundLocalError w'
           \<and> exchanges w' = exchanges w \<and> package_json w' = Some d
           \<and> dictionary_file w' = Some entries"
    by simp
next
  assume "list_all (\<lambda>t. t \<in> set (map fst entries)) (settings_leaves d)
        \<and> distinct (settings_leaves d)"
  then have "length (settings_leaves d) \<le> length entries"
    by (intro distinct_leaves_le_entries) simp_all
  then show "count_translatable_items d \<le> length entries"
    by (simp add: length_settings_leaves)
qed

text \<open>
  The second run over \<open>{"title": "Hello", "description": "World"}\<close>, the dictionary file
  holding both texts.
\<close>

theorem warm_rerun_does_not_complete_witness:
  "package_json two_leaves_warm_world
      = Some (JObject [(''title'', JString ''Hello''), (''description'', JString ''World'')])
   \<and> dictionary_file two_leaves_warm_world = Some two_leaves_cache
   \<and> settings_leaves (JObject [(''title'', JString ''Hello''), (''description'', JString ''World'')])
      = [''Hello'', ''World'']
   \<and> map fst two_leaves_cache = [''Hello'', ''World'']
   \<and> (\<exists>w'. main_with dictionary_as_path phrasebook ''key'' two_leaves_warm_world
              = Raise UnboundLocalError w'
          \<and> exchanges w' = exchanges two_leaves_warm_world
          \<and> package_json w' = package_json two_leaves_warm_world
          \<and> dictionary_file w' = Some two_leaves_cache)
   \<and> (\<exists>w'. main phrasebook ''key'' two_leaves_warm_world = Raise AttributeError w'
          \<and> exchanges w' = exchanges two_leaves_warm_world
          \<and> package_json w' = package_json two_leaves_warm_world)"
proof -
  let ?d = "JObject [(''title'', JString ''Hello''), (''description'', JString ''World'')]"
  have pkg: "package_json two_leaves_warm_world = Some ?d"
    and dfile: "dictionary_file two_leaves_warm_world = Some two_leaves_cache"
    by (simp_all add: two_leaves_warm_world_def two_leaves_world_def world0_def)
  have leaves: "settings_leaves ?d = [''Hello'', ''World'']"
    by (simp add: REPLACE_TARGET_KEYS_def)
  have keys: "map fst two_leaves_cache = [''Hello'', ''World'']"
    by (simp add: two_leaves_cache_def)
  have warm: "list_all (\<lambda>t. blank t \<or> t \<in> set (map fst two_leaves_cache)) (settings_leaves ?d)"
    "list_all (\<lambda>t. t \<in> set (map fst two_leaves_cache)) (settings_leaves ?d)"
    "distinct (settings_leaves ?d)"
    unfolding leaves keys by simp_all
  note inst = warm_rerun_does_not_complete
    [of phrasebook "''key''" two_leaves_warm_world ?d two_leaves_cache
      "''translation_dictionary.json''"]
  from inst pkg dfile warm
  have "(\<exists>w'. main_with (PyPath ''translation_dictionary.json'') phrasebook ''key''
                two_leaves_warm_world = Raise UnboundLocalError w'
           \<and> exchanges w' = exchanges two_leaves_warm_world \<and> package_json w' = Some ?d
           \<and> dictionary_file w' = Some two_leaves_cache)
      \<and> (\<exists>w'. main phrasebook ''key'' two_leaves_warm_world = Raise AttributeError w'
          \<and> exchanges w' = exchanges two_leaves_warm_world
          \<and> package_json w' = package_json two_leaves_warm_world)"
    by simp
  with pkg dfile leaves keys show ?thesis by (simp add: dictionary_as_path_def)
qed

end
